theory Spec2Isabelle
  imports Complex_Main "HOL-Library.Type_Length"
begin

section \<open>JavaScript numbers\<close>


type_synonym binary64 = "53"

datatype 'p jsnum = Fin real | NZero | PInf | NInf | NaN

fun is_fin :: "'p jsnum \<Rightarrow> bool" where
  "is_fin (Fin r) = True"
| "is_fin NZero = True"
| "is_fin PInf = False"
| "is_fin NInf = False"
| "is_fin NaN = False"

fun val :: "'p jsnum \<Rightarrow> real" where
  "val (Fin r) = r"
| "val NZero = 0"
| "val PInf = 0"
| "val NInf = 0"
| "val NaN = 0"

fun is_zero :: "'p jsnum \<Rightarrow> bool" where
  "is_zero (Fin r) = (r = 0)"
| "is_zero NZero = True"
| "is_zero PInf = False"
| "is_zero NInf = False"
| "is_zero NaN = False"

fun is_inf :: "'p jsnum \<Rightarrow> bool" where
  "is_inf (Fin r) = False"
| "is_inf NZero = False"
| "is_inf PInf = True"
| "is_inf NInf = True"
| "is_inf NaN = False"

text \<open>The sign bit; that of NaN is never looked at.\<close>

fun sign_neg :: "'p jsnum \<Rightarrow> bool" where
  "sign_neg (Fin r) = (r < 0)"
| "sign_neg NZero = True"
| "sign_neg PInf = False"
| "sign_neg NInf = True"
| "sign_neg NaN = False"

definition zero_of :: "bool \<Rightarrow> 'p jsnum" where
  "zero_of s = (if s then NZero else Fin 0)"

definition inf_of :: "bool \<Rightarrow> 'p jsnum" where
  "inf_of s = (if s then NInf else PInf)"

text \<open>A finite result with the sign bit \<open>s\<close> to use when the result is a zero.\<close>

definition fin_of :: "bool \<Rightarrow> real \<Rightarrow> 'p jsnum" where
  "fin_of s r = (if r = 0 then zero_of s else Fin r)"

subsection \<open>Rounding to binary64\<close>

text \<open>
  Rounding to the nearest integer, ties to even; the exponent of a real in the format,
  that of the subnormal numbers below \<open>2 powr - 1022\<close>; the distance of two neighbours of the
  format at this exponent, 53 bits of precision; and the nearest real with 53 bits at
  this exponent, which is the result of the rounding unless it has left the range of the
  format.
\<close>

definition round_even :: "real \<Rightarrow> int" where
  "round_even q =
     (let f = \<lfloor>q\<rfloor>
      in if q - of_int f < 1 / 2 then f
         else if 1 / 2 < q - of_int f then f + 1
         else if even f then f else f + 1)"

definition b64_exponent :: "real \<Rightarrow> int" where
  "b64_exponent r = max \<lfloor>log 2 \<bar>r\<bar>\<rfloor> (- 1022)"

definition b64_ulp :: "real \<Rightarrow> real" where
  "b64_ulp r = 2 powr of_int (b64_exponent r - 52)"

definition b64_value :: "real \<Rightarrow> real" where
  "b64_value r = of_int (round_even (r / b64_ulp r)) * b64_ulp r"

text \<open>
  The number that the real \<open>r\<close> is rounded to: an infinity from \<open>2 ^ 1024\<close> on, a zero with
  the sign of \<open>r\<close> when \<open>r\<close> is not zero and too small, and a zero with the sign bit \<open>s\<close>
  when \<open>r\<close> is zero.
\<close>

definition b64_round :: "bool \<Rightarrow> real \<Rightarrow> 'p jsnum" where
  "b64_round s r =
     (if r = 0 then zero_of s
      else if 2 ^ 1024 \<le> \<bar>b64_value r\<bar> then inf_of (r < 0)
      else if b64_value r = 0 then zero_of (r < 0)
      else Fin (b64_value r))"

text \<open>
  The reals that binary64 holds exactly: an integer of at most 53 bits times a power of
  two of the range of the format.
\<close>

definition rep64 :: "real \<Rightarrow> bool" where
  "rep64 r =
     (\<exists>m e. r = of_int m * 2 powr of_int e \<and> \<bar>m\<bar> < 2 ^ 53 \<and> - 1074 \<le> e \<and> e \<le> 971)"

text \<open>The result of an operation whose real result is \<open>r\<close>, in the arithmetic \<open>'p\<close>.\<close>

definition rnd :: "bool \<Rightarrow> real \<Rightarrow> 'p::len0 jsnum" where
  "rnd s r = (if LENGTH('p) = 0 then fin_of s r else b64_round s r)"

subsection \<open>Operations\<close>

fun js_neg :: "'p jsnum \<Rightarrow> 'p jsnum" where
  "js_neg (Fin r) = (if r = 0 then NZero else Fin (- r))"
| "js_neg NZero = Fin 0"
| "js_neg PInf = NInf"
| "js_neg NInf = PInf"
| "js_neg NaN = NaN"

definition js_add :: "'p::len0 jsnum \<Rightarrow> 'p jsnum \<Rightarrow> 'p jsnum" where
  "js_add a b =
     (if a = NaN \<or> b = NaN then NaN
      else if is_inf a then (if is_inf b \<and> a \<noteq> b then NaN else a)
      else if is_inf b then b
      else if a = NZero \<and> b = NZero then NZero
      else rnd False (val a + val b))"

definition js_sub :: "'p::len0 jsnum \<Rightarrow> 'p jsnum \<Rightarrow> 'p jsnum" where
  "js_sub a b = js_add a (js_neg b)"

definition js_mul :: "'p::len0 jsnum \<Rightarrow> 'p jsnum \<Rightarrow> 'p jsnum" where
  "js_mul a b =
     (if a = NaN \<or> b = NaN then NaN
      else if (is_inf a \<and> is_zero b) \<or> (is_zero a \<and> is_inf b) then NaN
      else if is_inf a \<or> is_inf b then inf_of (sign_neg a \<noteq> sign_neg b)
      else rnd (sign_neg a \<noteq> sign_neg b) (val a * val b))"

definition js_div :: "'p::len0 jsnum \<Rightarrow> 'p jsnum \<Rightarrow> 'p jsnum" where
  "js_div a b =
     (if a = NaN \<or> b = NaN then NaN
      else if (is_inf a \<and> is_inf b) \<or> (is_zero a \<and> is_zero b) then NaN
      else if is_inf a then inf_of (sign_neg a \<noteq> sign_neg b)
      else if is_inf b then zero_of (sign_neg a \<noteq> sign_neg b)
      else if is_zero b then inf_of (sign_neg a \<noteq> sign_neg b)
      else rnd (sign_neg a \<noteq> sign_neg b) (val a / val b))"

text \<open>
  \<open>Math.sqrt\<close>, \<open>Math.abs\<close>, \<open>Math.sin\<close>, \<open>Math.cos\<close> and \<open>Math.PI\<close>; the square root, the
  sine and the cosine are taken as correctly rounded.
\<close>

fun Math_sqrt :: "'p::len0 jsnum \<Rightarrow> 'p jsnum" where
  "Math_sqrt (Fin r) = (if r < 0 then NaN else rnd False (sqrt r))"
| "Math_sqrt NZero = NZero"
| "Math_sqrt PInf = PInf"
| "Math_sqrt NInf = NaN"
| "Math_sqrt NaN = NaN"

fun Math_abs :: "'p jsnum \<Rightarrow> 'p jsnum" where
  "Math_abs (Fin r) = Fin \<bar>r\<bar>"
| "Math_abs NZero = Fin 0"
| "Math_abs PInf = PInf"
| "Math_abs NInf = PInf"
| "Math_abs NaN = NaN"




text \<open>
  The comparisons \<open><\<close>, \<open><=\<close>, \<open>>\<close>, \<open>>=\<close> and \<open>==\<close> on numbers: false as soon as an
  operand is NaN, and the two zeros are equal.
\<close>

definition js_lt :: "'p jsnum \<Rightarrow> 'p jsnum \<Rightarrow> bool" where
  "js_lt a b =
     (if a = NaN \<or> b = NaN then False
      else if a = PInf \<or> b = NInf then False
      else if a = NInf \<or> b = PInf then True
      else val a < val b)"

definition js_eq :: "'p jsnum \<Rightarrow> 'p jsnum \<Rightarrow> bool" where
  "js_eq a b =
     (if a = NaN \<or> b = NaN then False
      else if is_inf a \<or> is_inf b then a = b
      else val a = val b)"

definition js_le :: "'p jsnum \<Rightarrow> 'p jsnum \<Rightarrow> bool" where
  "js_le a b = (js_lt a b \<or> js_eq a b)"

definition js_gt :: "'p jsnum \<Rightarrow> 'p jsnum \<Rightarrow> bool" where
  "js_gt a b = js_lt b a"

definition js_ge :: "'p jsnum \<Rightarrow> 'p jsnum \<Rightarrow> bool" where
  "js_ge a b = js_le b a"

text \<open>A number is falsy when it is a zero or NaN; \<open>a || b\<close> is \<open>a\<close> unless \<open>a\<close> is falsy.\<close>

definition truthy :: "'p jsnum \<Rightarrow> bool" where
  "truthy a = (\<not> is_zero a \<and> a \<noteq> NaN)"

definition js_or :: "'p jsnum \<Rightarrow> 'p jsnum \<Rightarrow> 'p jsnum" where
  "js_or a b = (if truthy a then a else b)"

text \<open>
  The arithmetic and comparison operators of the source are written with the usual
  symbols: on \<open>jsnum\<close> they stand for the operations above and carry no algebraic law.
  \<open>a > b\<close> and \<open>a >= b\<close> are \<open>b < a\<close> and \<open>b \<le> a\<close>.
\<close>

instantiation jsnum :: (len0) "{plus, minus, uminus, times, inverse, ord}"
begin

definition plus_jsnum :: "'a jsnum \<Rightarrow> 'a jsnum \<Rightarrow> 'a jsnum" where
  "plus_jsnum a b = js_add a b"

definition minus_jsnum :: "'a jsnum \<Rightarrow> 'a jsnum \<Rightarrow> 'a jsnum" where
  "minus_jsnum a b = js_sub a b"

definition uminus_jsnum :: "'a jsnum \<Rightarrow> 'a jsnum" where
  "uminus_jsnum a = js_neg a"

definition times_jsnum :: "'a jsnum \<Rightarrow> 'a jsnum \<Rightarrow> 'a jsnum" where
  "times_jsnum a b = js_mul a b"

definition divide_jsnum :: "'a jsnum \<Rightarrow> 'a jsnum \<Rightarrow> 'a jsnum" where
  "divide_jsnum a b = js_div a b"

definition inverse_jsnum :: "'a jsnum \<Rightarrow> 'a jsnum" where
  "inverse_jsnum a = js_div (Fin 1) a"

definition less_jsnum :: "'a jsnum \<Rightarrow> 'a jsnum \<Rightarrow> bool" where
  "less_jsnum a b = js_lt a b"

definition less_eq_jsnum :: "'a jsnum \<Rightarrow> 'a jsnum \<Rightarrow> bool" where
  "less_eq_jsnum a b = js_le a b"

instance ..

end

section \<open>Points, circles and vectors\<close>

text \<open>
  \<open>Point\<close> is the interface \<open>{x: number, y: number}\<close> of the namespaces \<open>Polygon\<close> and
  \<open>Collision2D\<close>. The class \<open>Vector2\<close> has the same two public fields, so a vector is a
  value of the same record. A line segment is the array of two points of the header
  comment of \<open>Collision2D\<close>, a pair here.
\<close>

record 'p Point =
  x :: "'p jsnum"
  y :: "'p jsnum"

record 'p Circle =
  radius :: "'p jsnum"
  center :: "'p Point"

type_synonym 'p Vector2 = "'p Point"

type_synonym 'p LineSegment = "'p Point \<times> 'p Point"

section \<open>Vector2\<close>

text \<open>The constructor: \<open>this.x = x || 0; this.y = y || 0\<close>, both arguments optional.\<close>

definition Vector2_new :: "'p jsnum option \<Rightarrow> 'p jsnum option \<Rightarrow> 'p Vector2" where
  "Vector2_new xo yo =
     \<lparr>x = (case xo of None \<Rightarrow> Fin 0 | Some a \<Rightarrow> js_or a (Fin 0)),
      y = (case yo of None \<Rightarrow> Fin 0 | Some b \<Rightarrow> js_or b (Fin 0))\<rparr>"

text \<open>The static \<open>Vector2.Length\<close> and the method \<open>length\<close>.\<close>

definition Length :: "'p::len0 Vector2 \<Rightarrow> 'p jsnum" where
  "Length v = Math_sqrt (x v * x v + y v * y v)"

definition length_inst :: "'p::len0 Vector2 \<Rightarrow> 'p jsnum" where
  "length_inst this = Math_sqrt (x this * x this + y this * y this)"

text \<open>
  The static \<open>Vector2.Normalize\<close> returns a new vector; \<open>Normalize_length\<close> is its local
  variable \<open>length\<close>, the divisor.
\<close>

definition Normalize_length :: "'p::len0 Vector2 \<Rightarrow> 'p jsnum" where
  "Normalize_length v = js_or (Math_sqrt (x v * x v + y v * y v)) (Fin 1)"

definition Normalize :: "'p::len0 Vector2 \<Rightarrow> 'p Vector2" where
  "Normalize v =
     (let len = Normalize_length v;
          x1 = x v / len;
          y1 = y v / len
      in Vector2_new (Some x1) (Some y1))"

text \<open>
  The method \<open>normalize\<close> writes the receiver in place and returns it: the model takes
  the receiver and returns it updated, first \<open>x\<close>, then \<open>y\<close>. \<open>normalize_inst_length\<close>
  is its local variable \<open>length\<close>.
\<close>

definition normalize_inst_length :: "'p::len0 Vector2 \<Rightarrow> 'p jsnum" where
  "normalize_inst_length this =
     js_or (Math_sqrt (x this * x this + y this * y this)) (Fin 1)"

definition normalize_inst :: "'p::len0 Vector2 \<Rightarrow> 'p Vector2" where
  "normalize_inst this =
     (let len = normalize_inst_length this;
          this1 = this\<lparr>x := x this / len\<rparr>;
          this2 = this1\<lparr>y := y this1 / len\<rparr>
      in this2)"

section \<open>Polygon\<close>



text \<open>
  The functions that read and write the vertices of a polygon work on objects: a point
  is an address of a store, a polygon is the list of the addresses of its vertices, and
  the same object may occur twice or be passed as \<open>position\<close> too.
\<close>

type_synonym ref = nat

type_synonym 'p heap = "ref \<Rightarrow> 'p Point"

text \<open>
  \<open>GetArea\<close>: the loop state is \<open>(area, j)\<close>, with \<open>j = polygon.length - 1\<close> at first
  (never read when the polygon is empty) and \<open>j = i\<close> after each turn.
\<close>

definition GetArea_step ::
  "'p::len0 heap \<Rightarrow> ref list \<Rightarrow> nat \<Rightarrow> 'p jsnum \<times> nat \<Rightarrow> 'p jsnum \<times> nat" where
  "GetArea_step h polygon i s =
     (case s of (area, j) \<Rightarrow>
        (area + (x (h (polygon ! j)) - x (h (polygon ! i))) *
                (y (h (polygon ! j)) + y (h (polygon ! i))), i))"

definition GetArea :: "'p::len0 heap \<Rightarrow> ref list \<Rightarrow> bool option \<Rightarrow> 'p jsnum" where
  "GetArea h polygon signed =
     (let sg = (case signed of None \<Rightarrow> False | Some b \<Rightarrow> b);
          area = fst (fold (GetArea_step h polygon) [0..<length polygon]
                        (Fin 0, length polygon - 1))
      in if sg then area / Fin 2 else Math_abs area / Fin 2)"

definition GetCenterPoint_step ::
  "'p::len0 heap \<Rightarrow> ref list \<Rightarrow> nat \<Rightarrow> 'p Point \<Rightarrow> 'p Point" where
  "GetCenterPoint_step h polygon i centre =
     (let j = (i + 1) mod length polygon;
          vi = h (polygon ! i);
          vj = h (polygon ! j);
          cross = (x vi * y vj) - (y vi * x vj);
          centre1 = centre\<lparr>x := x centre + (x vi + x vj) * cross\<rparr>;
          centre2 = centre1\<lparr>y := y centre1 + (y vi + y vj) * cross\<rparr>
      in centre2)"

text \<open>The centre is a new object, returned by value.\<close>

definition GetCenterPoint :: "'p::len0 heap \<Rightarrow> ref list \<Rightarrow> 'p Point" where
  "GetCenterPoint h polygon =
     (let area = GetArea h polygon (Some True);
          centre = fold (GetCenterPoint_step h polygon) [0..<length polygon]
                     \<lparr>x = Fin 0, y = Fin 0\<rparr>;
          centre1 = centre\<lparr>x := x centre / (Fin 6 * area)\<rparr>;
          centre2 = centre1\<lparr>y := y centre1 / (Fin 6 * area)\<rparr>
      in centre2)"

text \<open>
  \<open>TranslateTo\<close>: \<open>position.x -= cp.x; position.y -= cp.y\<close>, then for each vertex object
  \<open>k\<close> of the polygon \<open>k.x += position.x; k.y += position.y\<close>, every read and write going
  through the store.
\<close>

definition TranslateTo_step :: "ref \<Rightarrow> ref \<Rightarrow> 'p::len0 heap \<Rightarrow> 'p heap" where
  "TranslateTo_step position k h =
     (let h1 = h(k := (h k)\<lparr>x := x (h k) + x (h position)\<rparr>);
          h2 = h1(k := (h1 k)\<lparr>y := y (h1 k) + y (h1 position)\<rparr>)
      in h2)"

definition TranslateTo :: "'p::len0 heap \<Rightarrow> ref list \<Rightarrow> ref \<Rightarrow> 'p heap" where
  "TranslateTo h polygon position =
     (let cp = GetCenterPoint h polygon;
          h1 = h(position := (h position)\<lparr>x := x (h position) - x cp\<rparr>);
          h2 = h1(position := (h1 position)\<lparr>y := y (h1 position) - y cp\<rparr>)
      in fold (TranslateTo_step position) polygon h2)"

section \<open>Collision2D\<close>

text \<open>\<open>PointOnLineSegment\<close>; the parameter \<open>threshold\<close> is optional and defaults to 0.\<close>

definition PointOnLineSegment ::
  "'p::len0 Point \<Rightarrow> 'p LineSegment \<Rightarrow> 'p jsnum option \<Rightarrow> bool" where
  "PointOnLineSegment point line threshold =
     (let th = (case threshold of None \<Rightarrow> Fin 0 | Some t \<Rightarrow> t);
          currPoint = point; point1 = fst line; point2 = snd line;
          dxc = x currPoint - x point1;
          dyc = y currPoint - y point1;
          dxl = x point2 - x point1;
          dyl = y point2 - y point1;
          cross = dxc * dyl - dyc * dxl
      in if Math_abs cross > th then False
         else if Math_abs dxl \<ge> Math_abs dyl
         then (if dxl > Fin 0
               then x point1 \<le> x currPoint \<and> x currPoint \<le> x point2
               else x point2 \<le> x currPoint \<and> x currPoint \<le> x point1)
         else (if dyl > Fin 0
               then y point1 \<le> y currPoint \<and> y currPoint \<le> y point2
               else y point2 \<le> y currPoint \<and> y currPoint \<le> y point1))"

definition PointInsideCircle :: "'p::len0 Point \<Rightarrow> 'p Circle \<Rightarrow> bool" where
  "PointInsideCircle point circle =
     (let p1 = point; p2 = center circle;
          dist = Math_sqrt ((x p1 - x p2) * (x p1 - x p2) + (y p1 - y p2) * y p1 - y p2)
      in dist < radius circle)"

text \<open>\<open>LineSegmentsIntersection\<close> returns a point or null, \<open>None\<close> here.\<close>

definition LineSegmentsIntersection ::
  "'p::len0 LineSegment \<Rightarrow> 'p LineSegment \<Rightarrow> 'p Point option" where
  "LineSegmentsIntersection line1 line2 =
     (let e1_0 = fst line1; e1_1 = snd line1; e2_0 = fst line2; e2_1 = snd line2;
          s1_x = x e1_1 - x e1_0;
          s1_y = y e1_1 - y e1_0;
          s2_x = x e2_1 - x e2_0;
          s2_y = y e2_1 - y e2_0;
          s = ((- s1_y) * (x e1_0 - x e2_0) + s1_x * (y e1_0 - y e2_0)) /
              ((- s2_x) * s1_y + s1_x * s2_y);
          t = (s2_x * (y e1_0 - y e2_0) - s2_y * (x e1_0 - x e2_0)) /
              ((- s2_x) * s1_y + s1_x * s2_y)
      in if s \<ge> Fin 0 \<and> s \<le> Fin 1 \<and> t \<ge> Fin 0 \<and> t \<le> Fin 1
         then
           (let xv = ((x e1_1 - x e1_0) * (x e2_1 * y e2_0 - y e2_1 * x e2_0) -
                      (x e2_1 - x e2_0) * (x e1_1 * y e1_0 - y e1_1 * x e1_0)) /
                     ((y e1_1 - y e1_0) * (x e2_1 - x e2_0) -
                      (y e2_1 - y e2_0) * (x e1_1 - x e1_0));
                yv = ((y e2_1 - y e2_0) * (x e1_1 * y e1_0 - y e1_1 * x e1_0) -
                      (y e1_1 - y e1_0) * (x e2_1 * y e2_0 - y e2_1 * x e2_0)) /
                     ((y e2_1 - y e2_0) * (x e1_1 - x e1_0) -
                      (y e1_1 - y e1_0) * (x e2_1 - x e2_0))
            in Some \<lparr>x = xv, y = yv\<rparr>)
         else None)"

definition LineSegmentsOverlapping :: "'p::len0 LineSegment \<Rightarrow> 'p LineSegment \<Rightarrow> bool" where
  "LineSegmentsOverlapping line1 line2 =
     (let pointA = fst line1; pointB = snd line1;
          pointC = fst line2; pointD = snd line2
      in (PointOnLineSegment pointC line1 None \<and> PointOnLineSegment pointB line2 None) \<or>
         (PointOnLineSegment pointD line1 None \<and> PointOnLineSegment pointB line2 None) \<or>
         (PointOnLineSegment pointA line2 None \<and> PointOnLineSegment pointC line1 None) \<or>
         (PointOnLineSegment pointA line2 None \<and> PointOnLineSegment pointD line1 None) \<or>
         (PointOnLineSegment pointA line2 None \<and> PointOnLineSegment pointB line2 None) \<or>
         (PointOnLineSegment pointD line1 None \<and> PointOnLineSegment pointC line1 None))"

text \<open>\<open>CirclesIntersection\<close> returns an array of one or two points, or null.\<close>

definition CirclesIntersection :: "'p::len0 Circle \<Rightarrow> 'p Circle \<Rightarrow> 'p Point list option" where
  "CirclesIntersection circle1 circle2 =
     (let x0 = x (center circle1); y0 = y (center circle1); r0 = radius circle1;
          x1 = x (center circle2); y1 = y (center circle2); r1 = radius circle2;
          dx = x1 - x0;
          dy = y1 - y0;
          d = Math_sqrt ((dy * dy) + (dx * dx))
      in if d > (r0 + r1) then None
         else if d < Math_abs (r0 - r1) then None
         else
           (let a = ((r0 * r0) - (r1 * r1) + (d * d)) / (Fin 2 * d);
                x2 = x0 + (dx * a / d);
                y2 = y0 + (dy * a / d);
                h = Math_sqrt ((r0 * r0) - (a * a));
                rx = (- dy) * (h / d);
                ry = dx * (h / d);
                xi = x2 + rx;
                xi_prime = x2 - rx;
                yi = y2 + ry;
                yi_prime = y2 - ry
            in if js_eq xi xi_prime \<and> js_eq yi yi_prime then Some [\<lparr>x = xi, y = yi\<rparr>]
               else Some [\<lparr>x = xi, y = yi\<rparr>, \<lparr>x = xi_prime, y = yi_prime\<rparr>]))"

definition CirclesOverlapping :: "'p::len0 Circle \<Rightarrow> 'p Circle \<Rightarrow> bool" where
  "CirclesOverlapping circle1 circle2 =
     (let p1 = center circle1; p2 = center circle2;
          dist = Math_sqrt ((x p1 - x p2) * (x p1 - x p2) + (y p1 - y p2) * y p1 - y p2);
          r_sum = radius circle1 + radius circle2
      in dist < r_sum)"

section \<open>Notions used in the statements\<close>

text \<open>A point whose two coordinates are finite numbers, as the data model asks.\<close>

definition fin_point :: "'p Point \<Rightarrow> bool" where
  "fin_point p = (is_fin (x p) \<and> is_fin (y p))"

text \<open>
  The Euclidean distance between two points with finite coordinates, and the Euclidean
  length of a vector with finite components, over the reals.
\<close>

definition euclid_dist :: "'p Point \<Rightarrow> 'p Point \<Rightarrow> real" where
  "euclid_dist p q = sqrt ((val (x p) - val (x q))\<^sup>2 + (val (y p) - val (y q))\<^sup>2)"

definition euclid_norm :: "'p Vector2 \<Rightarrow> real" where
  "euclid_norm v = sqrt ((val (x v))\<^sup>2 + (val (y v))\<^sup>2)"


text \<open>
  The determinant of the directions of two segments with finite coordinates, over the
  reals: it is zero when the segments are parallel or collinear, or when one of them is
  reduced to a point.
\<close>

definition seg_det :: "'p LineSegment \<Rightarrow> 'p LineSegment \<Rightarrow> real" where
  "seg_det l1 l2 =
     - (val (x (snd l2)) - val (x (fst l2))) * (val (y (snd l1)) - val (y (fst l1)))
     + (val (x (snd l1)) - val (x (fst l1))) * (val (y (snd l2)) - val (y (fst l2)))"

text \<open>
  The local variables of \<open>LineSegmentsIntersection\<close>, as the source computes them: the
  direction \<open>(s1_x, s1_y)\<close> or \<open>(s2_x, s2_y)\<close> of a segment, the denominator of \<open>s\<close> and \<open>t\<close>,
  the two parameters, and the point of the \<open>return\<close> statement.
\<close>

definition seg_dir :: "'p::len0 LineSegment \<Rightarrow> 'p Point" where
  "seg_dir l = \<lparr>x = x (snd l) - x (fst l), y = y (snd l) - y (fst l)\<rparr>"

definition seg_den :: "'p::len0 LineSegment \<Rightarrow> 'p LineSegment \<Rightarrow> 'p jsnum" where
  "seg_den l1 l2 =
     (- x (seg_dir l2)) * y (seg_dir l1) + x (seg_dir l1) * y (seg_dir l2)"

definition seg_s :: "'p::len0 LineSegment \<Rightarrow> 'p LineSegment \<Rightarrow> 'p jsnum" where
  "seg_s l1 l2 =
     ((- y (seg_dir l1)) * (x (fst l1) - x (fst l2))
        + x (seg_dir l1) * (y (fst l1) - y (fst l2))) / seg_den l1 l2"

definition seg_t :: "'p::len0 LineSegment \<Rightarrow> 'p LineSegment \<Rightarrow> 'p jsnum" where
  "seg_t l1 l2 =
     (x (seg_dir l2) * (y (fst l1) - y (fst l2))
        - y (seg_dir l2) * (x (fst l1) - x (fst l2))) / seg_den l1 l2"

definition seg_point :: "'p::len0 LineSegment \<Rightarrow> 'p LineSegment \<Rightarrow> 'p Point" where
  "seg_point l1 l2 =
     \<lparr>x = ((x (snd l1) - x (fst l1)) * (x (snd l2) * y (fst l2) - y (snd l2) * x (fst l2)) -
           (x (snd l2) - x (fst l2)) * (x (snd l1) * y (fst l1) - y (snd l1) * x (fst l1))) /
          ((y (snd l1) - y (fst l1)) * (x (snd l2) - x (fst l2)) -
           (y (snd l2) - y (fst l2)) * (x (snd l1) - x (fst l1))),
      y = ((y (snd l2) - y (fst l2)) * (x (snd l1) * y (fst l1) - y (snd l1) * x (fst l1)) -
           (y (snd l1) - y (fst l1)) * (x (snd l2) * y (fst l2) - y (snd l2) * x (fst l2))) /
          ((y (snd l2) - y (fst l2)) * (x (snd l1) - x (fst l1)) -
           (y (snd l1) - y (fst l1)) * (x (snd l2) - x (fst l2)))\<rparr>"



text \<open>
  What the first two statements of \<open>TranslateTo\<close> leave in \<open>position\<close>: the position minus
  the centre of the polygon, as the source computes it.
\<close>

definition target_delta :: "'p::len0 heap \<Rightarrow> ref list \<Rightarrow> ref \<Rightarrow> 'p Point" where
  "target_delta h polygon position =
     \<lparr>x = x (h position) - x (GetCenterPoint h polygon),
      y = y (h position) - y (GetCenterPoint h polygon)\<rparr>"

text \<open>
  Two stores used as examples: a triangle of vertices \<open>(0,0)\<close>, \<open>(3,0)\<close>, \<open>(0,3)\<close> at the
  addresses 0, 1, 2 with a point \<open>(5,7)\<close> at the address 3, and a square centred at the
  origin at the addresses 0 to 3 with a point \<open>(5,7)\<close> at the address 4.
\<close>

definition triangle_heap :: "'p heap" where
  "triangle_heap = (\<lambda>r. \<lparr>x = Fin 0, y = Fin 0\<rparr>)
     (0 := \<lparr>x = Fin 0, y = Fin 0\<rparr>, 1 := \<lparr>x = Fin 3, y = Fin 0\<rparr>,
      2 := \<lparr>x = Fin 0, y = Fin 3\<rparr>, 3 := \<lparr>x = Fin 5, y = Fin 7\<rparr>)"

definition square_heap :: "'p heap" where
  "square_heap = (\<lambda>r. \<lparr>x = Fin 0, y = Fin 0\<rparr>)
     (0 := \<lparr>x = Fin (- 1), y = Fin (- 1)\<rparr>, 1 := \<lparr>x = Fin 1, y = Fin (- 1)\<rparr>,
      2 := \<lparr>x = Fin 1, y = Fin 1\<rparr>, 3 := \<lparr>x = Fin (- 1), y = Fin 1\<rparr>,
      4 := \<lparr>x = Fin 5, y = Fin 7\<rparr>)"

section \<open>Rounding to binary64: error, range and exact values\<close>

lemma round_even_error: "\<bar>of_int (round_even q) - q\<bar> \<le> 1 / 2"
  unfolding round_even_def Let_def by (auto; linarith)

lemma round_even_of_int [simp]: "round_even (of_int n) = n"
  by (simp add: round_even_def)

lemma round_even_0 [simp]: "round_even 0 = 0"
  using round_even_of_int[of 0] by simp

lemma round_even_nonneg: "0 \<le> q \<Longrightarrow> 0 \<le> round_even q"
  unfolding round_even_def Let_def by (auto simp add: add_nonneg_nonneg)

lemma round_even_nonpos: "q \<le> 0 \<Longrightarrow> round_even q \<le> 0"
proof -
  assume q: "q \<le> 0"
  have "of_int (round_even q) \<le> q + 1 / 2" using round_even_error[of q] by linarith
  then have "of_int (round_even q) < (1::real)" using q by linarith
  then show ?thesis by linarith
qed

lemma round_even_small: "\<bar>q\<bar> < 1 / 2 \<Longrightarrow> round_even q = 0"
proof -
  assume q: "\<bar>q\<bar> < 1 / 2"
  have "\<bar>of_int (round_even q)\<bar> < (1::real)" using round_even_error[of q] q by linarith
  then show ?thesis by linarith
qed

text \<open>Rounding is symmetric: ties go to the even neighbour on both sides of zero.\<close>

lemma round_even_minus: "round_even (- q) = - round_even q"
proof (cases "q = of_int \<lfloor>q\<rfloor>")
  case True
  then obtain n where "q = of_int n" ..
  then have "- q = of_int (- n)" by simp
  then show ?thesis using \<open>q = of_int n\<close> by (simp only: round_even_of_int)
next
  case False
  then have lt: "of_int \<lfloor>q\<rfloor> < q" "q < of_int \<lfloor>q\<rfloor> + 1" by linarith+
  have fm: "\<lfloor>- q\<rfloor> = - \<lfloor>q\<rfloor> - 1"
  proof (rule floor_unique)
    have e: "of_int (- \<lfloor>q\<rfloor> - 1) = - of_int \<lfloor>q\<rfloor> - (1::real)" by simp
    show "of_int (- \<lfloor>q\<rfloor> - 1) \<le> - q" unfolding e using lt(2) by linarith
    show "- q < of_int (- \<lfloor>q\<rfloor> - 1) + 1" unfolding e using lt(1) by linarith
  qed
  show ?thesis
    unfolding round_even_def Let_def fm using lt by (auto; linarith)
qed

lemma b64_ulp_pos: "0 < b64_ulp r"
  by (simp add: b64_ulp_def)

lemma b64_ulp_minus [simp]: "b64_ulp (- r) = b64_ulp r"
  by (simp add: b64_ulp_def b64_exponent_def)

lemma b64_value_zero [simp]: "b64_value 0 = 0"
  by (simp add: b64_value_def)

lemma b64_value_minus: "b64_value (- r) = - b64_value r"
  by (simp add: b64_value_def round_even_minus)

lemma b64_value_error: "\<bar>b64_value r - r\<bar> \<le> b64_ulp r / 2"
proof -
  let ?u = "b64_ulp r"
  have "\<bar>b64_value r - r\<bar> = \<bar>of_int (round_even (r / ?u)) - r / ?u\<bar> * ?u"
    using b64_ulp_pos[of r] by (simp add: b64_value_def abs_mult[symmetric] field_simps)
  also have "\<dots> \<le> (1 / 2) * ?u"
    using round_even_error[of "r / ?u"] b64_ulp_pos[of r] by (intro mult_right_mono) simp_all
  finally show ?thesis by simp
qed

lemma b64_ulp_bound:
  assumes nz: "r \<noteq> 0"
  shows "b64_ulp r / 2 \<le> \<bar>r\<bar> / 2 ^ 53 + 1 / 2 ^ 1075"
proof (cases "- 1022 \<le> \<lfloor>log 2 \<bar>r\<bar>\<rfloor>")
  case True
  then have e: "b64_exponent r = \<lfloor>log 2 \<bar>r\<bar>\<rfloor>" by (simp add: b64_exponent_def)
  have "2 powr of_int \<lfloor>log 2 \<bar>r\<bar>\<rfloor> \<le> 2 powr (log 2 \<bar>r\<bar>)"
    by (simp del: powr_log_cancel)
  also have "\<dots> = \<bar>r\<bar>" using nz by simp
  finally have le: "2 powr of_int \<lfloor>log 2 \<bar>r\<bar>\<rfloor> \<le> \<bar>r\<bar>" .
  have "b64_ulp r / 2 = 2 powr of_int \<lfloor>log 2 \<bar>r\<bar>\<rfloor> * 2 powr (- 53)"
    unfolding b64_ulp_def e by (simp add: powr_diff powr_minus field_simps)
  also have "\<dots> \<le> \<bar>r\<bar> * 2 powr (- 53)" using le by (intro mult_right_mono) simp_all
  also have "\<dots> = \<bar>r\<bar> / 2 ^ 53" by (simp add: powr_minus field_simps)
  finally show ?thesis by simp
next
  case False
  then have e: "b64_exponent r = - 1022"
    by (simp add: b64_exponent_def)
  have "b64_ulp r / 2 = 2 powr (- 1075)"
    unfolding b64_ulp_def e by (simp add: powr_minus field_simps)
  also have "\<dots> = 1 / 2 ^ 1075" by (simp add: powr_minus field_simps)
  finally show ?thesis by simp
qed

text \<open>
  The error of a rounding: a relative error of at most \<open>2 powr - 53\<close>, or half the
  distance of two subnormal numbers.
\<close>

lemma b64_value_bound: "\<bar>b64_value r - r\<bar> \<le> \<bar>r\<bar> / 2 ^ 53 + 1 / 2 ^ 1075"
proof (cases "r = 0")
  case True
  then show ?thesis by simp
next
  case False
  then show ?thesis using b64_value_error[of r] b64_ulp_bound[of r] by linarith
qed

lemma b64_value_nonneg: "0 \<le> r \<Longrightarrow> 0 \<le> b64_value r"
  unfolding b64_value_def using b64_ulp_pos[of r]
  by (intro mult_nonneg_nonneg) (simp_all add: round_even_nonneg)

lemma b64_value_nonpos: "r \<le> 0 \<Longrightarrow> b64_value r \<le> 0"
  unfolding b64_value_def using b64_ulp_pos[of r] round_even_nonpos[of "r / b64_ulp r"]
  by (simp add: mult_le_0_iff divide_le_0_iff)

text \<open>A real that the format holds is not changed by the rounding, and is in its range.\<close>

lemma rep64_exponent:
  assumes r: "r = of_int m * 2 powr of_int e" and m: "\<bar>m\<bar> < 2 ^ 53" and e: "- 1074 \<le> e"
      and nz: "r \<noteq> 0"
  shows "b64_exponent r - 52 \<le> e"
proof -
  have "\<bar>r\<bar> = \<bar>real_of_int m\<bar> * 2 powr of_int e" by (simp add: r abs_mult)
  also have "\<dots> < 2 ^ 53 * 2 powr of_int e"
  proof -
    have "\<bar>real_of_int m\<bar> < 2 ^ 53"
      using m by (metis of_int_abs of_int_less_numeral_power_cancel_iff)
    then show ?thesis by (intro mult_strict_right_mono) simp_all
  qed
  also have "\<dots> = 2 powr (of_int (53 + e))" by (simp add: powr_add)
  finally have lt: "\<bar>r\<bar> < 2 powr (of_int (53 + e))" .
  have "log 2 \<bar>r\<bar> < of_int (53 + e)"
    using lt nz by (subst log_less_iff) simp_all
  then have "\<lfloor>log 2 \<bar>r\<bar>\<rfloor> < 53 + e" by (simp add: floor_less_iff)
  then show ?thesis using e by (simp add: b64_exponent_def)
qed

lemma rep64_value:
  assumes rep: "rep64 r"
  shows "b64_value r = r" and "\<bar>r\<bar> < 2 ^ 1024"
proof -
  obtain m e where r: "r = of_int m * 2 powr of_int e" and m: "\<bar>m\<bar> < 2 ^ 53"
    and e: "- 1074 \<le> e" "e \<le> 971"
    using rep unfolding rep64_def by blast
  have mr: "\<bar>real_of_int m\<bar> < 2 ^ 53"
    using m by (metis of_int_abs of_int_less_numeral_power_cancel_iff)
  show "\<bar>r\<bar> < 2 ^ 1024"
  proof -
    have "\<bar>r\<bar> = \<bar>real_of_int m\<bar> * 2 powr of_int e" by (simp add: r abs_mult)
    also have "\<dots> \<le> \<bar>real_of_int m\<bar> * 2 powr of_int 971"
    proof -
      have "(2::real) powr of_int e \<le> 2 powr of_int 971"
        using e(2) by (subst powr_le_cancel_iff) simp_all
      then show ?thesis by (intro mult_left_mono) simp_all
    qed
    also have "\<dots> < 2 ^ 53 * 2 powr of_int 971"
      using mr by (intro mult_strict_right_mono) simp_all
    also have "\<dots> = 2 ^ 1024" by simp
    finally show ?thesis .
  qed
  show "b64_value r = r"
  proof (cases "r = 0")
    case True
    then show ?thesis by simp
  next
    case False
    define k where "k = nat (e - (b64_exponent r - 52))"
    have ke: "of_int e = of_int (b64_exponent r - 52) + real k"
      using rep64_exponent[OF r m e(1) False] by (simp add: k_def)
    have "(2::real) powr of_int e = 2 powr of_int (b64_exponent r - 52) * 2 ^ k"
      unfolding ke powr_add by (simp add: powr_realpow)
    then have pe: "2 powr of_int e = b64_ulp r * 2 ^ k" by (simp add: b64_ulp_def)
    have "r / b64_ulp r = of_int m * (b64_ulp r * 2 ^ k) / b64_ulp r"
      unfolding pe[symmetric] using r by simp
    also have "\<dots> = of_int m * 2 ^ k" using b64_ulp_pos[of r] by simp
    finally have q: "r / b64_ulp r = of_int (m * 2 ^ k)" by simp
    have "b64_value r = of_int (m * 2 ^ k) * b64_ulp r"
      by (simp only: b64_value_def q round_even_of_int)
    also have "\<dots> = r" using q b64_ulp_pos[of r] by (simp add: field_simps)
    finally show ?thesis .
  qed
qed

text \<open>Overflow and its absence, and underflow to zero.\<close>

lemma b64_value_overflow:
  assumes "2 ^ 1025 \<le> \<bar>r\<bar>"
  shows "2 ^ 1024 \<le> \<bar>b64_value r\<bar>"
proof -
  have "\<bar>b64_value r\<bar> \<ge> \<bar>r\<bar> - (\<bar>r\<bar> / 2 ^ 53 + 1 / 2 ^ 1075)"
    using b64_value_bound[of r] by linarith
  moreover have "\<bar>r\<bar> / 2 ^ 53 \<le> \<bar>r\<bar> / 4" by (simp add: field_simps)
  moreover have "(1::real) / 2 ^ 1075 \<le> 1" by simp
  moreover have "(2::real) ^ 1025 = 2 * 2 ^ 1024" by simp
  moreover have "(1::real) \<le> 2 ^ 1024 / 4" by simp
  ultimately show ?thesis using assms by linarith
qed

lemma b64_value_no_overflow:
  assumes "\<bar>r\<bar> \<le> 2 ^ 1023"
  shows "\<bar>b64_value r\<bar> < 2 ^ 1024"
proof -
  have "\<bar>b64_value r\<bar> \<le> \<bar>r\<bar> + (\<bar>r\<bar> / 2 ^ 53 + 1 / 2 ^ 1075)"
    using b64_value_bound[of r] by linarith
  moreover have "\<bar>r\<bar> / 2 ^ 53 \<le> \<bar>r\<bar> / 4" by (simp add: field_simps)
  moreover have "(1::real) / 2 ^ 1075 \<le> 1" by simp
  moreover have "(2::real) ^ 1024 = 2 * 2 ^ 1023" by simp
  moreover have "(1::real) < 2 ^ 1023 / 4" by simp
  ultimately show ?thesis using assms by linarith
qed

lemma b64_value_underflow:
  assumes "\<bar>r\<bar> < 1 / 2 ^ 1075"
  shows "b64_value r = 0"
proof (cases "r = 0")
  case True
  then show ?thesis by simp
next
  case False
  have "\<bar>r\<bar> < 2 powr (- 1075)" using assms by (simp add: powr_minus field_simps)
  then have "log 2 \<bar>r\<bar> < - 1075" using False by (subst log_less_iff) simp_all
  then have "\<lfloor>log 2 \<bar>r\<bar>\<rfloor> < - 1022" by (simp add: floor_less_iff)
  then have e: "b64_exponent r = - 1022" by (simp add: b64_exponent_def)
  have u: "b64_ulp r = 1 / 2 ^ 1074"
    unfolding b64_ulp_def e by (simp add: powr_minus field_simps)
  have "\<bar>r / b64_ulp r\<bar> = \<bar>r\<bar> * 2 ^ 1074" unfolding u by (simp add: abs_mult)
  also have "\<dots> < (1 / 2 ^ 1075) * 2 ^ 1074"
    using assms by (intro mult_strict_right_mono) simp_all
  also have "\<dots> = 1 / 2" by simp
  finally have "round_even (r / b64_ulp r) = 0" by (rule round_even_small)
  then show ?thesis by (simp add: b64_value_def)
qed

text \<open>The reals of the examples are held exactly.\<close>

lemma rep64_I:
  "\<bar>m\<bar> < 2 ^ 53 \<Longrightarrow> - 1074 \<le> e \<Longrightarrow> e \<le> 971 \<Longrightarrow> rep64 (of_int m * 2 powr of_int e)"
  unfolding rep64_def by blast

lemma numeral_int_bound: "numeral n < (2::real) ^ 53 \<Longrightarrow> \<bar>numeral n :: int\<bar> < 2 ^ 53"
proof -
  assume "numeral n < (2::real) ^ 53"
  then have "real_of_int (numeral n) < real_of_int (2 ^ 53)" by simp
  then have "(numeral n :: int) < 2 ^ 53" by (simp only: of_int_less_iff)
  then show ?thesis by simp
qed

lemma rep64_intros:
  "rep64 0" "rep64 1"
  "numeral n < (2::real) ^ 53 \<Longrightarrow> rep64 (numeral n)"
  "numeral n < (2::real) ^ 53 \<Longrightarrow> rep64 (numeral n / 2)"
  "numeral n < (2::real) ^ 53 \<Longrightarrow> rep64 (numeral n / 4)"
  "numeral n < (2::real) ^ 53 \<Longrightarrow> rep64 (numeral n / 8)"
  "rep64 (1 / 2)" "rep64 (1 / 4)" "rep64 (1 / 8)"
proof -
  show "rep64 0" using rep64_I[of 0 0] by simp
  show "rep64 1" using rep64_I[of 1 0] by simp
  show "rep64 (1 / 2)" using rep64_I[of 1 "- 1"] by (simp add: powr_minus field_simps)
  show "rep64 (1 / 4)" using rep64_I[of 1 "- 2"] by (simp add: powr_minus field_simps)
  show "rep64 (1 / 8)" using rep64_I[of 1 "- 3"] by (simp add: powr_minus field_simps)
  assume n: "numeral n < (2::real) ^ 53"
  note b = numeral_int_bound[OF n]
  show "rep64 (numeral n)" using rep64_I[OF b, of 0] by simp
  show "rep64 (numeral n / 2)" using rep64_I[OF b, of "- 1"] by (simp add: powr_minus field_simps)
  show "rep64 (numeral n / 4)" using rep64_I[OF b, of "- 2"] by (simp add: powr_minus field_simps)
  show "rep64 (numeral n / 8)" using rep64_I[OF b, of "- 3"] by (simp add: powr_minus field_simps)
qed

lemma rep64_power2:
  "k \<le> 971 \<Longrightarrow> rep64 (2 ^ k)"
  "k \<le> 1074 \<Longrightarrow> rep64 (1 / 2 ^ k)"
proof -
  show "rep64 (2 ^ k)" if "k \<le> 971"
    using rep64_I[of 1 "int k"] that by (simp add: powr_realpow)
  show "rep64 (1 / 2 ^ k)" if "k \<le> 1074"
    using rep64_I[of 1 "- int k"] that by (simp add: powr_minus powr_realpow field_simps)
qed

lemma rep64_minus [simp]: "rep64 (- r) = rep64 r"
proof -
  have "rep64 (- t)" if t: "rep64 t" for t
  proof -
    obtain m e where "t = of_int m * 2 powr of_int e" "\<bar>m\<bar> < 2 ^ 53" "- 1074 \<le> e" "e \<le> 971"
      using t unfolding rep64_def by blast
    then show ?thesis using rep64_I[of "- m" e] by simp
  qed
  from this[of r] this[of "- r"] show ?thesis by auto
qed

text \<open>
  The rounding returns a real that the format holds, unless it has left the range.
\<close>

lemma b64_exponent_bound: "\<bar>r\<bar> < 2 powr of_int (b64_exponent r + 1)"
proof (cases "r = 0")
  case True
  then show ?thesis by simp
next
  case False
  have "log 2 \<bar>r\<bar> < of_int (\<lfloor>log 2 \<bar>r\<bar>\<rfloor> + 1)" by linarith
  also have "\<dots> \<le> of_int (b64_exponent r + 1)" by (simp add: b64_exponent_def)
  finally have "log 2 \<bar>r\<bar> < of_int (b64_exponent r + 1)" .
  then show ?thesis using False by (subst (asm) log_less_iff) simp_all
qed

lemma powr_split: "2 powr of_int a = (2::real) ^ n * 2 powr of_int (a - int n)"
proof -
  have "(2::real) powr of_int a = 2 powr (of_int (int n) + of_int (a - int n))" by simp
  also have "\<dots> = 2 powr of_int (int n) * 2 powr of_int (a - int n)" by (rule powr_add)
  also have "(2::real) powr of_int (int n) = 2 ^ n" by (simp add: powr_realpow)
  finally show ?thesis .
qed

lemma b64_value_rep64:
  assumes fin: "\<bar>b64_value r\<bar> < 2 ^ 1024"
  shows "rep64 (b64_value r)"
proof -
  define e where "e = b64_exponent r"
  define u where "u = b64_ulp r"
  define m where "m = round_even (r / u)"
  have u: "u = 2 powr of_int (e - 52)" "0 < u" by (simp_all add: u_def e_def b64_ulp_def)
  have v: "b64_value r = of_int m * u" by (simp add: b64_value_def m_def u_def)
  have e_lo: "- 1022 \<le> e" by (simp add: e_def b64_exponent_def)
  have "\<bar>r\<bar> < 2 powr of_int (e + 1)" unfolding e_def by (rule b64_exponent_bound)
  also have "\<dots> = 2 ^ 53 * u" unfolding u(1) using powr_split[of "e + 1" 53] by simp
  finally have q: "\<bar>r / u\<bar> < 2 ^ 53" using u(2) by (simp add: pos_divide_less_eq)
  have "\<bar>real_of_int m\<bar> < 2 ^ 53 + 1"
    using round_even_error[of "r / u"] q unfolding m_def by linarith
  then have "real_of_int \<bar>m\<bar> < real_of_int (2 ^ 53 + 1)" by simp
  then have "\<bar>m\<bar> < 2 ^ 53 + 1" by (simp only: of_int_less_iff)
  then have mb: "\<bar>m\<bar> \<le> 2 ^ 53" by simp
  have e_hi: "e \<le> 1023"
  proof (rule ccontr)
    assume "\<not> e \<le> 1023"
    then have big: "1024 \<le> e" by simp
    then have "e = \<lfloor>log 2 \<bar>r\<bar>\<rfloor>" unfolding e_def b64_exponent_def by linarith
    then have el: "of_int e \<le> log 2 \<bar>r\<bar>" by simp
    have rn: "r \<noteq> 0"
    proof
      assume "r = 0"
      then have "log 2 \<bar>r\<bar> = 0" by (simp add: log_def ln_0)
      then show False using el big by simp
    qed
    have "2 powr of_int e \<le> \<bar>r\<bar>" using el rn by (subst (asm) le_log_iff) simp_all
    moreover have "2 powr of_int e = 2 ^ 52 * u" unfolding u(1) using powr_split[of e 52] by simp
    ultimately have "2 ^ 52 \<le> \<bar>r / u\<bar>" using u(2) by (simp add: pos_le_divide_eq)
    then have "2 ^ 52 - 1 < \<bar>real_of_int m\<bar>"
      using round_even_error[of "r / u"] unfolding m_def by linarith
    then have "real_of_int (2 ^ 52 - 1) < real_of_int \<bar>m\<bar>" by simp
    then have "2 ^ 52 - 1 < \<bar>m\<bar>" by (simp only: of_int_less_iff)
    then have "2 ^ 52 \<le> \<bar>m\<bar>" by simp
    then have "real_of_int (2 ^ 52) \<le> real_of_int \<bar>m\<bar>" by (simp only: of_int_le_iff)
    then have "2 ^ 52 \<le> \<bar>real_of_int m\<bar>" by simp
    then have "2 ^ 52 * u \<le> \<bar>real_of_int m\<bar> * u" using u(2) by (intro mult_right_mono) simp_all
    then have "2 powr of_int e \<le> \<bar>b64_value r\<bar>"
      using u(2) unfolding v \<open>2 powr of_int e = 2 ^ 52 * u\<close> by (simp add: abs_mult)
    moreover have "(2::real) powr of_int 1024 \<le> 2 powr of_int e"
      using big by (subst powr_le_cancel_iff) simp_all
    moreover have "(2::real) powr of_int 1024 = 2 ^ 1024" by simp
    ultimately show False using fin by linarith
  qed
  show ?thesis
  proof (cases "\<bar>m\<bar> < 2 ^ 53")
    case True
    show ?thesis unfolding v u(1)
      by (rule rep64_I[OF True]) (use e_lo e_hi in simp_all)
  next
    case False
    then have m53: "\<bar>m\<bar> = 2 ^ 53" using mb by linarith
    have "\<bar>b64_value r\<bar> = 2 ^ 53 * u" unfolding v using m53 u(2) by (simp add: abs_mult)
    also have "\<dots> = 2 powr of_int (e + 1)" unfolding u(1) using powr_split[of "e + 1" 53] by simp
    finally have "2 powr of_int (e + 1) < (2::real) powr of_int 1024" using fin by simp
    then have e2: "e + 1 < 1024" by (subst (asm) powr_less_cancel_iff) simp_all
    define m' where "m' = (if 0 \<le> m then 2 ^ 52 else - (2 ^ 52) :: int)"
    have m': "\<bar>m'\<bar> < 2 ^ 53" "of_int m = 2 * real_of_int m'"
      using m53 by (auto simp add: m'_def)
    have "of_int m * u = of_int m' * 2 powr of_int (e - 51)"
    proof -
      have "(2::real) powr of_int (e - 51) = 2 * 2 powr of_int (e - 52)"
        using powr_split[of "e - 51" 1] by simp
      then show ?thesis unfolding u(1) m'(2) by simp
    qed
    then show ?thesis unfolding v
      using rep64_I[OF m'(1), of "e - 51"] e_lo e2 by simp
  qed
qed

text \<open>
  The rounding of a real whose exponent is known, and three reals that the format does
  not hold: \<open>2 ^ 53 + 1\<close>, a tie that goes to the even neighbour \<open>2 ^ 53\<close>, \<open>2 ^ 106 - 1\<close>,
  rounded up to \<open>2 ^ 106\<close>, and \<open>3 * 2 ^ 53 + 3\<close>, rounded up to \<open>3 * 2 ^ 53 + 4\<close>.
\<close>

lemma b64_value_at_exponent:
  assumes "2 powr of_int e \<le> \<bar>r\<bar>" "\<bar>r\<bar> < 2 powr of_int (e + 1)" "- 1022 \<le> e"
  shows "b64_value r = of_int (round_even (r / 2 powr of_int (e - 52))) * 2 powr of_int (e - 52)"
proof -
  have pos: "0 < \<bar>r\<bar>"
  proof -
    have "(0::real) < 2 powr of_int e" by simp
    then show ?thesis using assms(1) by linarith
  qed
  have "\<lfloor>log 2 \<bar>r\<bar>\<rfloor> = e"
    using assms(1,2) pos by (subst floor_log_eq_powr_iff) simp_all
  then have "b64_exponent r = e" using assms(3) by (simp add: b64_exponent_def)
  then show ?thesis by (simp add: b64_value_def b64_ulp_def)
qed

lemma b64_value_2_53_1: "b64_value (2 ^ 53 + 1) = 2 ^ 53"
proof -
  have "b64_value (2 ^ 53 + 1)
          = of_int (round_even ((2 ^ 53 + 1) / 2 powr of_int (53 - 52))) * 2 powr of_int (53 - 52)"
    by (rule b64_value_at_exponent) simp_all
  also have "\<dots> = 2 ^ 53"
    by (simp add: round_even_def)
  finally show ?thesis .
qed


lemma b64_value_3_2_53_3: "b64_value (3 * 2 ^ 53 + 3) = 3 * 2 ^ 53 + 4"
proof -
  have "b64_value (3 * 2 ^ 53 + 3)
          = of_int (round_even ((3 * 2 ^ 53 + 3) / 2 powr of_int (54 - 52))) * 2 powr of_int (54 - 52)"
    by (rule b64_value_at_exponent) simp_all
  also have "\<dots> = 3 * 2 ^ 53 + 4"
    by (simp add: round_even_def)
  finally show ?thesis .
qed

section \<open>The result of an operation\<close>

lemmas js_ops = plus_jsnum_def minus_jsnum_def uminus_jsnum_def times_jsnum_def
  divide_jsnum_def less_jsnum_def less_eq_jsnum_def



lemma rnd_binary64: "(rnd s r :: binary64 jsnum) = b64_round s r"
  by (simp add: rnd_def)

lemma rnd_zero [simp]: "rnd s 0 = zero_of s"
  by (simp add: rnd_def fin_of_def b64_round_def)

text \<open>A real that binary64 holds exactly is the result in both arithmetics.\<close>

lemma rnd_rep64: "rep64 r \<Longrightarrow> rnd s r = fin_of s r"
  using rep64_value[of r] by (simp add: rnd_def b64_round_def fin_of_def)

lemma rnd_not_NaN [simp]: "rnd s r \<noteq> NaN"
  by (simp add: rnd_def fin_of_def b64_round_def zero_of_def inf_of_def)

lemma rnd_nonneg: "0 \<le> r \<Longrightarrow> \<not> (rnd s r < Fin 0)"
  using b64_value_nonneg[of r]
  by (auto simp add: rnd_def fin_of_def b64_round_def zero_of_def inf_of_def js_ops js_lt_def)

text \<open>
  Two products whose real values are opposite have opposite results, in both
  arithmetics, so their sum is a zero, or NaN when both have overflowed.
\<close>

lemma rnd_cancel:
  "is_zero (rnd s (- r) + rnd s' r :: 'p::len0 jsnum) \<or> rnd s (- r) + rnd s' r = (NaN :: 'p jsnum)"
proof (cases "r = 0")
  case True
  then show ?thesis by (cases s; cases s') (simp_all add: zero_of_def js_ops js_add_def)
next
  case False
  show ?thesis
  proof (cases "LENGTH('p) = 0")
    case True
    then show ?thesis using False
      by (simp add: rnd_def fin_of_def js_ops js_add_def zero_of_def)
  next
    case F: False
    show ?thesis using False F
      by (simp add: rnd_def b64_round_def b64_value_minus js_ops js_add_def zero_of_def
          inf_of_def)
  qed
qed

section \<open>Arithmetic on finite numbers\<close>

lemma fin_neg [simp]: "is_fin a \<Longrightarrow> is_fin (- a)"
  by (cases a) (simp_all add: js_ops)

lemma val_neg [simp]: "is_fin a \<Longrightarrow> val (- a) = - val a"
  by (cases a) (simp_all add: js_ops)

lemma fin_abs [simp]: "is_fin a \<Longrightarrow> is_fin (Math_abs a)"
  by (cases a) simp_all

lemma val_abs [simp]: "is_fin a \<Longrightarrow> val (Math_abs a) = \<bar>val a\<bar>"
  by (cases a) simp_all

lemma lt_fin [simp]: "is_fin a \<Longrightarrow> is_fin b \<Longrightarrow> (a < b) = (val a < val b)"
  by (cases a; cases b) (simp_all add: js_ops js_lt_def)

lemma eq_fin [simp]: "is_fin a \<Longrightarrow> is_fin b \<Longrightarrow> js_eq a b = (val a = val b)"
  by (cases a; cases b) (simp_all add: js_eq_def)

lemma le_fin [simp]: "is_fin a \<Longrightarrow> is_fin b \<Longrightarrow> (a \<le> b) = (val a \<le> val b)"
  by (cases a; cases b) (auto simp add: js_ops js_le_def js_lt_def js_eq_def)

lemma is_zero_iff: "is_zero a = (is_fin a \<and> val a = 0)"
  by (cases a) simp_all

lemma or_zero_fin [simp]: "is_fin a \<Longrightarrow> is_fin (js_or a (Fin 0))"
  by (cases a) (simp_all add: js_or_def)

lemma or_zero_val [simp]: "is_fin a \<Longrightarrow> val (js_or a (Fin 0)) = val a"
  by (cases a) (simp_all add: js_or_def truthy_def)

text \<open>NaN goes through every operation, and a zero divided by a zero is NaN.\<close>

lemma nan_ops [simp]:
  "NaN + a = NaN" "a + NaN = NaN" "NaN - a = NaN" "a - NaN = NaN"
  "NaN * a = NaN" "a * NaN = NaN" "NaN / a = NaN" "a / NaN = NaN"
  "js_eq NaN a = False" "js_eq a NaN = False"
  by (cases a; simp add: js_ops js_add_def js_sub_def js_mul_def js_div_def js_eq_def)+

lemma zero_div_zero: "is_zero a \<Longrightarrow> is_zero b \<Longrightarrow> a / b = NaN"
  by (cases a; cases b) (simp_all add: js_ops js_div_def)

text \<open>
  A quotient by a zero or by NaN is NaN or an infinity, never a number of the interval
  [0, 1].
\<close>

lemma div_zero_not_unit:
  assumes "is_zero b \<or> b = NaN"
  shows "\<not> (Fin 0 \<le> a / b \<and> a / b \<le> Fin 1)"
  using assms
  by (cases a; cases b)
     (auto simp add: js_ops js_div_def js_le_def js_lt_def js_eq_def inf_of_def)

text \<open>The difference of a number and itself is the positive zero, or NaN.\<close>

lemma sub_self_fin: "is_fin a \<Longrightarrow> a - a = Fin 0"
  by (cases a) (simp_all add: js_ops js_sub_def js_add_def zero_of_def)

lemma sub_self: "a - a = Fin 0 \<or> a - a = NaN"
  by (cases a) (simp_all add: js_ops js_sub_def js_add_def zero_of_def)

text \<open>
  On finite operands an operation returns the result of its real value, but for the sum
  of two negative zeros and the square root of the negative zero.
\<close>

lemma mul_fin:
  "is_fin a \<Longrightarrow> is_fin b \<Longrightarrow> a * b = rnd (sign_neg a \<noteq> sign_neg b) (val a * val b)"
  by (cases a; cases b) (simp_all add: js_ops js_mul_def)

lemma add_fin:
  "is_fin a \<Longrightarrow> is_fin b \<Longrightarrow>
     a + b = (if a = NZero \<and> b = NZero then NZero else rnd False (val a + val b))"
  by (cases a; cases b) (simp_all add: js_ops js_add_def)

lemma div_fin:
  "is_fin a \<Longrightarrow> is_fin b \<Longrightarrow> val b \<noteq> 0 \<Longrightarrow>
     a / b = rnd (sign_neg a \<noteq> sign_neg b) (val a / val b)"
  by (cases a; cases b) (simp_all add: js_ops js_div_def)

lemma sqrt_fin:
  "is_fin a \<Longrightarrow> 0 \<le> val a \<Longrightarrow>
     Math_sqrt a = (if a = NZero then NZero else rnd False (sqrt (val a)))"
  by (cases a) simp_all

section \<open>The operations of binary64\<close>

text \<open>
  A result that stays in the range of binary64 is a finite number, whose value is the
  rounded real.
\<close>

lemma b64_rnd:
  assumes "\<bar>b64_value r\<bar> < 2 ^ 1024"
  shows "is_fin (rnd s r :: binary64 jsnum)" "val (rnd s r :: binary64 jsnum) = b64_value r"
  using assms by (simp_all add: rnd_binary64 b64_round_def zero_of_def)

lemma rnd_b64_value:
  "b64_value r = v \<Longrightarrow> v \<noteq> 0 \<Longrightarrow> \<bar>v\<bar> < 2 ^ 1024 \<Longrightarrow> (rnd s r :: binary64 jsnum) = Fin v"
  by (auto simp add: rnd_binary64 b64_round_def)

lemma b64_mul:
  fixes a b :: "binary64 jsnum"
  assumes "is_fin a" "is_fin b" "\<bar>b64_value (val a * val b)\<bar> < 2 ^ 1024"
  shows "is_fin (a * b)" "val (a * b) = b64_value (val a * val b)"
  unfolding mul_fin[OF assms(1,2)] using b64_rnd[OF assms(3)] by simp_all

lemma b64_add:
  fixes a b :: "binary64 jsnum"
  assumes "is_fin a" "is_fin b" "\<bar>b64_value (val a + val b)\<bar> < 2 ^ 1024"
  shows "is_fin (a + b)" "val (a + b) = b64_value (val a + val b)"
  unfolding add_fin[OF assms(1,2)] using b64_rnd[OF assms(3)] by auto

lemma b64_div:
  fixes a b :: "binary64 jsnum"
  assumes "is_fin a" "is_fin b" "val b \<noteq> 0" "\<bar>b64_value (val a / val b)\<bar> < 2 ^ 1024"
  shows "is_fin (a / b)" "val (a / b) = b64_value (val a / val b)"
  unfolding div_fin[OF assms(1,2,3)] using b64_rnd[OF assms(4)] by simp_all

lemma b64_sqrt:
  fixes a :: "binary64 jsnum"
  assumes "is_fin a" "0 \<le> val a" "\<bar>b64_value (sqrt (val a))\<bar> < 2 ^ 1024"
  shows "is_fin (Math_sqrt a)" "val (Math_sqrt a) = b64_value (sqrt (val a))"
  unfolding sqrt_fin[OF assms(1,2)] using b64_rnd[OF assms(3)] by auto

text \<open>Every result of binary64 is a number of the format.\<close>

lemma rnd_rep64_val: "rep64 (val (rnd s r :: binary64 jsnum))"
proof (cases "\<bar>b64_value r\<bar> < 2 ^ 1024")
  case True
  then show ?thesis
    using b64_value_rep64[OF True]
    by (simp add: rnd_binary64 b64_round_def zero_of_def rep64_intros)
next
  case False
  then show ?thesis
    by (simp add: rnd_binary64 b64_round_def zero_of_def inf_of_def rep64_intros)
qed

text \<open>Operations on an infinity, and the results that leave the range of binary64.\<close>

lemma inf_arith:
  "Fin a + PInf = PInf" "PInf + Fin a = PInf" "(Fin a < PInf) = True"
  "Fin a / PInf = zero_of (a < 0)"
  by (simp_all add: js_ops js_add_def js_div_def js_lt_def)

lemma rnd_overflow: "2 ^ 1025 \<le> r \<Longrightarrow> (rnd s r :: binary64 jsnum) = PInf"
  using b64_value_overflow[of r] by (simp add: rnd_binary64 b64_round_def inf_of_def)

lemma rnd_underflow:
  "0 < r \<Longrightarrow> r < 1 / 2 ^ 1075 \<Longrightarrow> (rnd s r :: binary64 jsnum) = Fin 0"
  using b64_value_underflow[of r] by (simp add: rnd_binary64 b64_round_def zero_of_def)

section \<open>Evaluating arithmetic on given numbers\<close>

lemma Fin_arith:
  "Fin a + Fin b = rnd False (a + b)"
  "Fin a - Fin b = rnd False (a - b)"
  "Fin a + NZero = rnd False a" "NZero + Fin b = rnd False b" "NZero + NZero = NZero"
  "Fin a - NZero = rnd False a" "NZero - NZero = Fin 0"
  "NZero - Fin b = (if b = 0 then NZero else rnd False (- b))"
  "- Fin a = (if a = 0 then NZero else Fin (- a))" "- NZero = Fin 0"
  "Fin a * Fin b = rnd ((a < 0) \<noteq> (b < 0)) (a * b)"
  "NZero * Fin b = zero_of (\<not> b < 0)"
  "Fin a * NZero = zero_of (\<not> a < 0)"
  "NZero * NZero = Fin 0"
  by (simp_all add: js_ops js_add_def js_sub_def js_mul_def zero_of_def)

lemma Fin_div:
  "Fin a / Fin b =
     (if b = 0 then (if a = 0 then NaN else if a < 0 then NInf else PInf)
      else rnd ((a < 0) \<noteq> (b < 0)) (a / b))"
  "NZero / Fin b = (if b = 0 then NaN else zero_of (\<not> b < 0))"
  "Fin a / NZero = (if a = 0 then NaN else if a < 0 then PInf else NInf)"
  by (auto simp add: js_ops js_div_def zero_of_def inf_of_def)

lemma js_cmp:
  "(Fin a < Fin b) = (a < b)" "(Fin a \<le> Fin b) = (a \<le> b)"
  "(NZero < Fin b) = (0 < b)" "(Fin a < NZero) = (a < 0)"
  "(NZero \<le> Fin b) = (0 \<le> b)" "(Fin a \<le> NZero) = (a \<le> 0)"
  "(NaN < c) = False" "(c < NaN) = False" "(NaN \<le> c) = False" "(c \<le> NaN) = False"
  "(PInf < c) = False" "(c < NInf) = False"
  "(PInf \<le> Fin b) = False" "(Fin a \<le> NInf) = False"
  "(PInf \<le> NZero) = False" "(NZero \<le> NInf) = False"
  by (cases c; auto simp add: js_ops js_lt_def js_le_def js_eq_def)+

text \<open>
  \<open>js_num\<close> evaluates an expression on given numbers when every intermediate result is
  held exactly by binary64, in both arithmetics; \<open>exact_num\<close> evaluates in the exact one.
\<close>

lemmas js_num = Fin_arith Fin_div js_cmp rnd_rep64 rep64_intros fin_of_def zero_of_def
  inf_of_def


section \<open>Collision2D: the distance in the two circle predicates\<close>

text \<open>
  Claim C1. \<open>PointInsideCircle\<close> should answer whether the Euclidean distance from the
  point to the centre is less than the radius. It computes
  \<open>(p1.y - p2.y) * p1.y - p2.y\<close> where the square of \<open>p1.y - p2.y\<close> is meant: for the point
  \<open>(0, -1)\<close> and the circle of centre \<open>(0, 1)\<close> and radius 1.5 the distance is 2, not less
  than the radius, and the function answers true.
\<close>

theorem PointInsideCircle_wrong_distance:
  "PointInsideCircle \<lparr>x = Fin 0, y = Fin (- 1)\<rparr>
       \<lparr>radius = Fin (3 / 2), center = \<lparr>x = Fin 0, y = Fin 1\<rparr>\<rparr> = True
   \<and> euclid_dist \<lparr>x = Fin 0, y = Fin (- 1)\<rparr> \<lparr>x = Fin 0, y = Fin 1\<rparr> = 2
   \<and> \<not> euclid_dist \<lparr>x = Fin 0, y = Fin (- 1)\<rparr> \<lparr>x = Fin 0, y = Fin 1\<rparr> < 3 / 2"
  by (simp add: PointInsideCircle_def euclid_dist_def js_num)

text \<open>
  Claim C3. \<open>CirclesOverlapping\<close> should answer whether the distance between the centres
  is less than the sum of the radii, and has the same expression in place of the squared
  difference: two circles of radius 0.75 centred at \<open>(0, -1)\<close> and \<open>(0, 1)\<close> are at
  distance 2, the radii sum to 1.5, and the function answers true.
\<close>

theorem CirclesOverlapping_wrong_distance:
  "CirclesOverlapping \<lparr>radius = Fin (3 / 4), center = \<lparr>x = Fin 0, y = Fin (- 1)\<rparr>\<rparr>
       \<lparr>radius = Fin (3 / 4), center = \<lparr>x = Fin 0, y = Fin 1\<rparr>\<rparr> = True
   \<and> euclid_dist \<lparr>x = Fin 0, y = Fin (- 1)\<rparr> \<lparr>x = Fin 0, y = Fin 1\<rparr> = 2
   \<and> \<not> euclid_dist \<lparr>x = Fin 0, y = Fin (- 1)\<rparr> \<lparr>x = Fin 0, y = Fin 1\<rparr> < 3 / 4 + 3 / 4"
  by (simp add: CirclesOverlapping_def euclid_dist_def js_num)

section \<open>Collision2D: overlapping line segments\<close>

text \<open>
  Claim C4, as stated: \<open>LineSegmentsOverlapping\<close> is true as soon as one endpoint of a
  segment lies on the other segment. It is not: the segment from \<open>(1, 0)\<close> to \<open>(1, 1)\<close>
  starts on the segment from \<open>(0, 0)\<close> to \<open>(2, 0)\<close>, no other endpoint lies on the other
  segment, and the function answers false.
\<close>

theorem LineSegmentsOverlapping_one_endpoint_counterexample:
  "\<not> (LineSegmentsOverlapping (\<lparr>x = Fin 0, y = Fin 0\<rparr>, \<lparr>x = Fin 2, y = Fin 0\<rparr>)
                               (\<lparr>x = Fin 1, y = Fin 0\<rparr>, \<lparr>x = Fin 1, y = Fin 1\<rparr>)
       = (PointOnLineSegment \<lparr>x = Fin 0, y = Fin 0\<rparr>
            (\<lparr>x = Fin 1, y = Fin 0\<rparr>, \<lparr>x = Fin 1, y = Fin 1\<rparr>) None
          \<or> PointOnLineSegment \<lparr>x = Fin 2, y = Fin 0\<rparr>
            (\<lparr>x = Fin 1, y = Fin 0\<rparr>, \<lparr>x = Fin 1, y = Fin 1\<rparr>) None
          \<or> PointOnLineSegment \<lparr>x = Fin 1, y = Fin 0\<rparr>
            (\<lparr>x = Fin 0, y = Fin 0\<rparr>, \<lparr>x = Fin 2, y = Fin 0\<rparr>) None
          \<or> PointOnLineSegment \<lparr>x = Fin 1, y = Fin 1\<rparr>
            (\<lparr>x = Fin 0, y = Fin 0\<rparr>, \<lparr>x = Fin 2, y = Fin 0\<rparr>) None))"
  by (simp add: LineSegmentsOverlapping_def PointOnLineSegment_def js_num)

text \<open>
  Claim C4, amended: \<open>LineSegmentsOverlapping\<close> is true if and only if at least two of
  the four tests hold, the tests being whether an endpoint of a segment lies on the
  other segment (\<open>PointOnLineSegment\<close> with the default threshold 0): the six
  conjunctions of the source are the six pairs of these four tests.
\<close>

theorem LineSegmentsOverlapping_two_endpoints:
  "LineSegmentsOverlapping l1 l2 =
     (2 \<le> length (filter (\<lambda>b. b)
        [PointOnLineSegment (fst l1) l2 None, PointOnLineSegment (snd l1) l2 None,
         PointOnLineSegment (fst l2) l1 None, PointOnLineSegment (snd l2) l1 None]))"
  unfolding LineSegmentsOverlapping_def Let_def by auto

theorem LineSegmentsOverlapping_two_endpoints_witness:
  "LineSegmentsOverlapping (\<lparr>x = Fin 0, y = Fin 0\<rparr>, \<lparr>x = Fin 2, y = Fin 0\<rparr>)
                           (\<lparr>x = Fin 1, y = Fin 0\<rparr>, \<lparr>x = Fin 3, y = Fin 0\<rparr>)"
  using LineSegmentsOverlapping_two_endpoints
          [of "(\<lparr>x = Fin 0, y = Fin 0\<rparr>, \<lparr>x = Fin 2, y = Fin 0\<rparr>)"
              "(\<lparr>x = Fin 1, y = Fin 0\<rparr>, \<lparr>x = Fin 3, y = Fin 0\<rparr>)"]
  by (simp add: PointOnLineSegment_def js_num)

section \<open>Collision2D: intersection of two identical circles\<close>

text \<open>
  Claim C10. For two identical circles, with a finite centre and a finite positive radius,
  \<open>CirclesIntersection\<close> does not return null: the distance \<open>d\<close> is 0, neither guard
  fires, \<open>a\<close> is the quotient of a zero by a zero, NaN, and the function returns an array
  of two points whose four coordinates are NaN.
\<close>

theorem CirclesIntersection_identical_circles:
  assumes "is_fin cx" "is_fin cy" "is_fin r" "0 < val r"
  shows "CirclesIntersection \<lparr>radius = r, center = \<lparr>x = cx, y = cy\<rparr>\<rparr>
           \<lparr>radius = r, center = \<lparr>x = cx, y = cy\<rparr>\<rparr>
         = Some [\<lparr>x = NaN, y = NaN\<rparr>, \<lparr>x = NaN, y = NaN\<rparr>]"
proof -
  have z: "cx - cx = Fin 0" "cy - cy = Fin 0" "r - r = Fin 0"
    using assms by (simp_all add: sub_self_fin)
  have d: "Math_sqrt ((Fin 0 * Fin 0) + (Fin 0 * Fin 0)) = Fin 0"
    by (simp add: Fin_arith zero_of_def)
  have rr: "r + r = rnd False (val r + val r)"
    using assms(3,4) by (cases r) (simp_all add: Fin_arith)
  have g1: "\<not> (r + r < Fin 0)"
    unfolding rr using assms(4) by (intro rnd_nonneg) simp
  have g2: "\<not> (Fin 0 < Math_abs (Fin 0))" by (simp add: js_cmp)
  have dd: "Fin 0 * Fin 0 = Fin 0" "Fin 2 * Fin 0 = Fin 0"
    by (simp_all add: Fin_arith zero_of_def)
  have a: "((r * r) - (r * r) + Fin 0) / Fin 0 = NaN"
    using sub_self[of "r * r"] by (auto simp add: Fin_arith Fin_div zero_of_def)
  show ?thesis
    unfolding CirclesIntersection_def Let_def Circle.simps Point.simps z d
    using g1 g2 by (simp add: dd a)
qed

theorem CirclesIntersection_identical_circles_witness:
  "CirclesIntersection \<lparr>radius = Fin 5, center = \<lparr>x = Fin 0, y = Fin 0\<rparr>\<rparr>
           \<lparr>radius = Fin 5, center = \<lparr>x = Fin 0, y = Fin 0\<rparr>\<rparr>
         = Some [\<lparr>x = NaN, y = NaN\<rparr>, \<lparr>x = NaN, y = NaN\<rparr>]"
  using CirclesIntersection_identical_circles[of "Fin 0" "Fin 0" "Fin 5"] by simp

section \<open>Polygon: regular polygons\<close>







section \<open>Collision2D: intersection of two line segments\<close>

text \<open>
  The function is the test of the two parameters that the source computes, followed by
  the point of the \<open>return\<close> statement.
\<close>

lemma LineSegmentsIntersection_unfold:
  "LineSegmentsIntersection l1 l2 =
     (if Fin 0 \<le> seg_s l1 l2 \<and> seg_s l1 l2 \<le> Fin 1 \<and> Fin 0 \<le> seg_t l1 l2 \<and> seg_t l1 l2 \<le> Fin 1
      then Some (seg_point l1 l2) else None)"
  by (simp add: LineSegmentsIntersection_def seg_s_def seg_t_def seg_den_def seg_dir_def
      seg_point_def Let_def)

text \<open>
  With a denominator that is a zero or NaN the parameter \<open>s\<close> is NaN or infinite, and the
  result is null.
\<close>

lemma LineSegmentsIntersection_zero_den:
  assumes "is_zero (seg_den l1 l2) \<or> seg_den l1 l2 = NaN"
  shows "LineSegmentsIntersection l1 l2 = None"
proof -
  have "\<not> (Fin 0 \<le> seg_s l1 l2 \<and> seg_s l1 l2 \<le> Fin 1)"
    unfolding seg_s_def by (rule div_zero_not_unit[OF assms])
  then show ?thesis unfolding LineSegmentsIntersection_unfold by auto
qed

text \<open>
  When the two directions that the source computes are parallel, or one of them is zero,
  the two products of the denominator have opposite real values, and the denominator is
  a zero or NaN.
\<close>

lemma seg_den_parallel:
  assumes f: "fin_point (seg_dir l1)" "fin_point (seg_dir l2)"
      and p: "val (x (seg_dir l1)) * val (y (seg_dir l2))
                = val (x (seg_dir l2)) * val (y (seg_dir l1))"
  shows "is_zero (seg_den l1 l2) \<or> seg_den l1 l2 = NaN"
proof -
  have f': "is_fin (x (seg_dir l1))" "is_fin (y (seg_dir l1))"
           "is_fin (x (seg_dir l2))" "is_fin (y (seg_dir l2))"
    using f by (simp_all add: fin_point_def)
  obtain s where a: "(- x (seg_dir l2)) * y (seg_dir l1)
                       = rnd s (- (val (x (seg_dir l1)) * val (y (seg_dir l2))))"
    using mul_fin[of "- x (seg_dir l2)" "y (seg_dir l1)"] f' p by simp
  obtain s' where b: "x (seg_dir l1) * y (seg_dir l2)
                       = rnd s' (val (x (seg_dir l1)) * val (y (seg_dir l2)))"
    using mul_fin[of "x (seg_dir l1)" "y (seg_dir l2)"] f' by simp
  show ?thesis unfolding seg_den_def a b by (rule rnd_cancel)
qed

text \<open>
  Claim C5, as stated: \<open>LineSegmentsIntersection\<close> returns null for every pair of
  parallel or collinear segments, the denominator being zero. It does not in binary64:
  the segment from \<open>(-1, -3)\<close> to \<open>(0, 0)\<close> and the segment from \<open>(-1, -3)\<close> to
  \<open>(2 ^ 53, 3 * 2 ^ 53)\<close> lie on the same line, the determinant of their directions is
  zero, but the direction of the second is computed as \<open>(2 ^ 53, 3 * 2 ^ 53 + 4)\<close>, the
  differences \<open>2 ^ 53 + 1\<close> and \<open>3 * 2 ^ 53 + 3\<close> being rounded; the denominator computed is
  4, \<open>s\<close> and \<open>t\<close> are 0, and the function returns the point \<open>(-0, 0)\<close>.
\<close>

theorem LineSegmentsIntersection_collinear_counterexample:
  "seg_det (\<lparr>x = Fin (- 1), y = Fin (- 3)\<rparr>, \<lparr>x = Fin 0, y = Fin 0\<rparr>)
           (\<lparr>x = Fin (- 1), y = Fin (- 3)\<rparr>, \<lparr>x = Fin (2 ^ 53), y = Fin (3 * 2 ^ 53)\<rparr> :: binary64 Point) = 0
   \<and> LineSegmentsIntersection (\<lparr>x = Fin (- 1), y = Fin (- 3)\<rparr>, \<lparr>x = Fin 0, y = Fin 0\<rparr>)
           (\<lparr>x = Fin (- 1), y = Fin (- 3)\<rparr>, \<lparr>x = Fin (2 ^ 53), y = Fin (3 * 2 ^ 53)\<rparr>)
       = Some (\<lparr>x = NZero, y = Fin 0\<rparr> :: binary64 Point)"
proof -
  define P T U :: real where PTU: "P = 2 ^ 53" "T = 3 * 2 ^ 53" "U = 3 * 2 ^ 53 + 4"
  have "rep64 (of_int 3 * 2 powr of_int 53)" "rep64 (of_int (3 * 2 ^ 51 + 1) * 2 powr of_int 2)"
    by (rule rep64_I; simp)+
  then have r3: "rep64 (3 * (2::real) ^ 53)" "rep64 (3 * (2::real) ^ 53 + 4)" by simp_all
  have "rep64 ((2::real) ^ 53)" by (rule rep64_power2) simp
  then have rep: "rep64 P" "rep64 T" "rep64 U" using r3 unfolding PTU by simp_all
  have F: "0 < P" "P \<noteq> 0" "0 < T" "T \<noteq> 0" "0 < U" "U \<noteq> 0" "P * 3 = T" "3 * P = T"
    "U - T = 4" "T - U = - 4" "\<bar>P\<bar> < 2 ^ 1024" "\<bar>U\<bar> < 2 ^ 1024"
    "\<not> P < 0" "\<not> T < 0" "\<not> U < 0"
    unfolding PTU by simp_all
  have "b64_value (P + 1) = P" unfolding PTU by (rule b64_value_2_53_1)
  then have r1: "(rnd s (P + 1) :: binary64 jsnum) = Fin P" for s
    using F(2,11) by (intro rnd_b64_value) simp_all
  have "b64_value (T + 3) = U" unfolding PTU by (rule b64_value_3_2_53_3)
  then have r2: "(rnd s (T + 3) :: binary64 jsnum) = Fin U" for s
    using F(6,12) by (intro rnd_b64_value) simp_all
  define l1 l2 :: "binary64 LineSegment" where
    L: "l1 = (\<lparr>x = Fin (- 1), y = Fin (- 3)\<rparr>, \<lparr>x = Fin 0, y = Fin 0\<rparr>)"
       "l2 = (\<lparr>x = Fin (- 1), y = Fin (- 3)\<rparr>, \<lparr>x = Fin P, y = Fin T\<rparr>)"
  have d1: "seg_dir l1 = \<lparr>x = Fin 1, y = Fin 3\<rparr>"
    by (simp add: L seg_dir_def js_num)
  have d2: "seg_dir l2 = \<lparr>x = Fin P, y = Fin U\<rparr>"
    by (simp add: L seg_dir_def Fin_arith r1 r2)
  have den: "seg_den l1 l2 = Fin 4"
    unfolding seg_den_def d1 d2
    by (simp add: Fin_arith rnd_rep64 rep64_intros fin_of_def zero_of_def F rep)
  have s: "seg_s l1 l2 = Fin 0" "seg_t l1 l2 = Fin 0"
    unfolding seg_s_def seg_t_def den d1 d2
    by (simp_all add: L Fin_arith Fin_div zero_of_def F)
  have p: "seg_point l1 l2 = \<lparr>x = NZero, y = Fin 0\<rparr>"
    unfolding seg_point_def
    by (simp add: L Fin_arith Fin_div r1 r2 rnd_rep64 rep64_intros fin_of_def zero_of_def
        F rep)
  have n: "LineSegmentsIntersection l1 l2 = Some \<lparr>x = NZero, y = Fin 0\<rparr>"
    unfolding LineSegmentsIntersection_unfold s p by (simp add: js_cmp)
  have dt: "seg_det l1 l2 = 0"
    by (simp add: seg_det_def L PTU)
  show ?thesis using dt n unfolding L PTU by simp
qed

text \<open>
  Claim C5, amended: \<open>LineSegmentsIntersection\<close> returns a point exactly when the
  parameters \<open>s\<close> and \<open>t\<close> that it has computed both lie in the closed interval [0, 1], and
  null otherwise; the point is the one of its \<open>return\<close> statement. It returns null when
  the denominator that it has computed is a zero (or NaN), and this is the case for all
  segments whose computed directions are finite and parallel, or zero. It returns null
  for \<open>[(0,0),(1,0)]\<close> and \<open>[(0,1),(1,1)]\<close>, and \<open>(1,1)\<close> for \<open>[(0,0),(2,2)]\<close> and
  \<open>[(0,2),(2,0)]\<close>.
\<close>

theorem LineSegmentsIntersection_spec:
  "LineSegmentsIntersection l1 l2 =
     (if Fin 0 \<le> seg_s l1 l2 \<and> seg_s l1 l2 \<le> Fin 1 \<and> Fin 0 \<le> seg_t l1 l2 \<and> seg_t l1 l2 \<le> Fin 1
      then Some (seg_point l1 l2) else None)
   \<and> (is_zero (seg_den l1 l2) \<or> seg_den l1 l2 = NaN \<longrightarrow> LineSegmentsIntersection l1 l2 = None)
   \<and> (fin_point (seg_dir l1) \<and> fin_point (seg_dir l2)
        \<and> val (x (seg_dir l1)) * val (y (seg_dir l2)) = val (x (seg_dir l2)) * val (y (seg_dir l1))
        \<longrightarrow> LineSegmentsIntersection l1 l2 = None)
   \<and> LineSegmentsIntersection (\<lparr>x = Fin 0, y = Fin 0\<rparr>, \<lparr>x = Fin 1, y = Fin 0\<rparr>)
                                (\<lparr>x = Fin 0, y = Fin 1\<rparr>, \<lparr>x = Fin 1, y = Fin 1\<rparr>) = None
   \<and> LineSegmentsIntersection (\<lparr>x = Fin 0, y = Fin 0\<rparr>, \<lparr>x = Fin 2, y = Fin 2\<rparr>)
                                (\<lparr>x = Fin 0, y = Fin 2\<rparr>, \<lparr>x = Fin 2, y = Fin 0\<rparr>)
       = Some \<lparr>x = Fin 1, y = Fin 1\<rparr>"
proof -
  have e1: "LineSegmentsIntersection (\<lparr>x = Fin 0, y = Fin 0\<rparr>, \<lparr>x = Fin 1, y = Fin 0\<rparr>)
                                (\<lparr>x = Fin 0, y = Fin 1\<rparr>, \<lparr>x = Fin 1, y = Fin 1\<rparr>) = None"
    by (simp add: LineSegmentsIntersection_def js_num)
  have e2: "LineSegmentsIntersection (\<lparr>x = Fin 0, y = Fin 0\<rparr>, \<lparr>x = Fin 2, y = Fin 2\<rparr>)
                                (\<lparr>x = Fin 0, y = Fin 2\<rparr>, \<lparr>x = Fin 2, y = Fin 0\<rparr>)
       = Some \<lparr>x = Fin 1, y = Fin 1\<rparr>"
    by (simp add: LineSegmentsIntersection_def js_num)
  have c: "LineSegmentsIntersection l1 l2 = None"
    if "fin_point (seg_dir l1) \<and> fin_point (seg_dir l2)
        \<and> val (x (seg_dir l1)) * val (y (seg_dir l2)) = val (x (seg_dir l2)) * val (y (seg_dir l1))"
    using that LineSegmentsIntersection_zero_den seg_den_parallel by blast
  show ?thesis
    using LineSegmentsIntersection_unfold[of l1 l2] LineSegmentsIntersection_zero_den[of l1 l2]
      c e1 e2
    by (simp only: simp_thms) blast
qed

theorem LineSegmentsIntersection_spec_witness:
  "seg_s (\<lparr>x = Fin 0, y = Fin 0\<rparr>, \<lparr>x = Fin 2, y = Fin 2\<rparr>)
         (\<lparr>x = Fin 0, y = Fin 2\<rparr>, \<lparr>x = Fin 2, y = Fin 0\<rparr>) = (Fin (1 / 2) :: binary64 jsnum)
   \<and> seg_t (\<lparr>x = Fin 0, y = Fin 0\<rparr>, \<lparr>x = Fin 2, y = Fin 2\<rparr>)
           (\<lparr>x = Fin 0, y = Fin 2\<rparr>, \<lparr>x = Fin 2, y = Fin 0\<rparr>) = (Fin (1 / 2) :: binary64 jsnum)
   \<and> LineSegmentsIntersection (\<lparr>x = Fin 0, y = Fin 0\<rparr>, \<lparr>x = Fin 2, y = Fin 2\<rparr>)
           (\<lparr>x = Fin 0, y = Fin 2\<rparr>, \<lparr>x = Fin 2, y = Fin 0\<rparr>)
       = Some (\<lparr>x = Fin 1, y = Fin 1\<rparr> :: binary64 Point)
   \<and> seg_den (\<lparr>x = Fin 0, y = Fin 0\<rparr>, \<lparr>x = Fin 1, y = Fin 0\<rparr>)
             (\<lparr>x = Fin 0, y = Fin 1\<rparr>, \<lparr>x = Fin 1, y = Fin 1\<rparr>) = (Fin 0 :: binary64 jsnum)
   \<and> LineSegmentsIntersection (\<lparr>x = Fin 0, y = Fin 0\<rparr>, \<lparr>x = Fin 1, y = Fin 0\<rparr>)
             (\<lparr>x = Fin 0, y = Fin 1\<rparr>, \<lparr>x = Fin 1, y = Fin 1\<rparr>)
       = (None :: binary64 Point option)"
proof -
  define a b c d :: "binary64 LineSegment" where
    D: "a = (\<lparr>x = Fin 0, y = Fin 0\<rparr>, \<lparr>x = Fin 2, y = Fin 2\<rparr>)"
       "b = (\<lparr>x = Fin 0, y = Fin 2\<rparr>, \<lparr>x = Fin 2, y = Fin 0\<rparr>)"
       "c = (\<lparr>x = Fin 0, y = Fin 0\<rparr>, \<lparr>x = Fin 1, y = Fin 0\<rparr>)"
       "d = (\<lparr>x = Fin 0, y = Fin 1\<rparr>, \<lparr>x = Fin 1, y = Fin 1\<rparr>)"
  have s: "seg_s a b = Fin (1 / 2)" "seg_t a b = Fin (1 / 2)"
    by (simp_all add: D seg_s_def seg_t_def seg_den_def seg_dir_def js_num)
  have p: "seg_point a b = \<lparr>x = Fin 1, y = Fin 1\<rparr>"
    by (simp add: D seg_point_def js_num)
  have dn: "seg_den c d = Fin 0"
    by (simp add: D seg_den_def seg_dir_def js_num)
  have "LineSegmentsIntersection a b =
          (if Fin 0 \<le> seg_s a b \<and> seg_s a b \<le> Fin 1 \<and> Fin 0 \<le> seg_t a b \<and> seg_t a b \<le> Fin 1
           then Some (seg_point a b) else None)"
    by (rule LineSegmentsIntersection_spec[of a b, THEN conjunct1])
  then have r1: "LineSegmentsIntersection a b = Some \<lparr>x = Fin 1, y = Fin 1\<rparr>"
    unfolding s p by (simp add: js_cmp)
  have "is_zero (seg_den c d) \<or> seg_den c d = NaN \<longrightarrow> LineSegmentsIntersection c d = None"
    by (rule LineSegmentsIntersection_spec[of c d, THEN conjunct2, THEN conjunct1])
  then have r2: "LineSegmentsIntersection c d = None" unfolding dn by simp
  show ?thesis using s dn r1 r2 unfolding D by simp
qed

section \<open>Collision2D: intersection of two circles\<close>





section \<open>Polygon: TranslateTo\<close>

text \<open>
  A turn of the loop of \<open>TranslateTo\<close> writes one vertex; a vertex object that occurs
  once and is not \<open>position\<close> is moved by what \<open>position\<close> holds, and an object that is not
  a vertex is not written.
\<close>

lemma Point_update: "(p::'p Point)\<lparr>x := a, y := b\<rparr> = \<lparr>x = a, y = b\<rparr>"
  by (cases p) simp

lemma TranslateTo_step_eq:
  "TranslateTo_step position k h
     = h(k := \<lparr>x = x (h k) + x (h position), y = y (h k) + y (h position)\<rparr>)"
  by (cases "k = position") (simp_all add: TranslateTo_step_def Let_def fun_eq_iff)

lemma TranslateTo_eq:
  "TranslateTo h polygon position
     = fold (TranslateTo_step position) polygon (h(position := target_delta h polygon position))"
  by (simp add: TranslateTo_def Let_def target_delta_def Point_update)

lemma fold_TranslateTo_step_frame:
  "r \<notin> set ks \<Longrightarrow> fold (TranslateTo_step position) ks h r = h r"
  by (induction ks arbitrary: h) (simp_all add: TranslateTo_step_eq)

lemma fold_TranslateTo_step_vertex:
  assumes "distinct ks" "position \<notin> set ks" "r \<in> set ks"
  shows "fold (TranslateTo_step position) ks h r
           = \<lparr>x = x (h r) + x (h position), y = y (h r) + y (h position)\<rparr>"
  using assms
proof (induction ks arbitrary: h)
  case Nil
  then show ?case by simp
next
  case (Cons k ks)
  let ?h1 = "h(k := \<lparr>x = x (h k) + x (h position), y = y (h k) + y (h position)\<rparr>)"
  have f: "fold (TranslateTo_step position) (k # ks) h = fold (TranslateTo_step position) ks ?h1"
    by (simp add: TranslateTo_step_eq)
  have kp: "k \<noteq> position" using Cons.prems(2) by auto
  show ?case
  proof (cases "r = k")
    case True
    then have "r \<notin> set ks" using Cons.prems(1) by simp
    then show ?thesis unfolding f using True by (simp add: fold_TranslateTo_step_frame)
  next
    case False
    then have "r \<in> set ks" using Cons.prems(3) by simp
    then have "fold (TranslateTo_step position) ks ?h1 r
                = \<lparr>x = x (?h1 r) + x (?h1 position), y = y (?h1 r) + y (?h1 position)\<rparr>"
      by (intro Cons.IH) (use Cons.prems in auto)
    moreover have "?h1 r = h r" "?h1 position = h position" using False kp by simp_all
    ultimately show ?thesis unfolding f by simp
  qed
qed

text \<open>The two example polygons: their areas and centres.\<close>

lemma upt3: "[0..<3] = [0, 1, 2]" by (simp add: upt_rec)
lemma upt4: "[0..<4] = [0, 1, 2, 3]" by (simp add: upt_rec)

lemma tri_area: "GetArea triangle_heap [0, 1, 2] (Some True) = Fin (9 / 2)"
  by (simp add: GetArea_def GetArea_step_def triangle_heap_def upt3 js_num)

lemma tri_centre: "GetCenterPoint triangle_heap [0, 1, 2] = \<lparr>x = Fin 1, y = Fin 1\<rparr>"
  unfolding GetCenterPoint_def tri_area
  by (simp add: GetCenterPoint_step_def triangle_heap_def upt3 js_num Let_def)

lemma sq_area: "GetArea square_heap [0, 1, 2, 3] (Some True) = Fin 4"
  by (simp add: GetArea_def GetArea_step_def square_heap_def upt4 js_num)

lemma sq_centre: "GetCenterPoint square_heap [0, 1, 2, 3] = \<lparr>x = Fin 0, y = Fin 0\<rparr>"
  unfolding GetCenterPoint_def sq_area
  by (simp add: GetCenterPoint_step_def square_heap_def upt4 js_num Let_def)

text \<open>
  Claim C7. \<open>TranslateTo(polygon, t)\<close> should move the centre of the polygon to \<open>t\<close>. It
  does not when the target is a vertex object of the polygon: for the triangle \<open>(0,0)\<close>,
  \<open>(3,0)\<close>, \<open>(0,3)\<close>, of signed area 4.5, and its first vertex \<open>(0,0)\<close> as target,
  \<open>position\<close> is first overwritten with \<open>(-1,-1)\<close>, then added to itself as a vertex and,
  doubled, to the two others, and the centre ends at \<open>(-1,-1)\<close>, not at \<open>(0,0)\<close>.
\<close>

theorem TranslateTo_aliased_target:
  "val (GetArea triangle_heap [0, 1, 2] (Some True)) = 9 / 2
   \<and> triangle_heap 0 = \<lparr>x = Fin 0, y = Fin 0\<rparr>
   \<and> GetCenterPoint (TranslateTo triangle_heap [0, 1, 2] 0) [0, 1, 2]
       = \<lparr>x = Fin (- 1), y = Fin (- 1)\<rparr>"
proof -
  have t: "TranslateTo triangle_heap [0, 1, 2] 0
      = triangle_heap(0 := \<lparr>x = Fin (- 2), y = Fin (- 2)\<rparr>, 1 := \<lparr>x = Fin 1, y = Fin (- 2)\<rparr>,
                       2 := \<lparr>x = Fin (- 2), y = Fin 1\<rparr>)"
    unfolding TranslateTo_eq target_delta_def tri_centre
    by (simp add: TranslateTo_step_eq triangle_heap_def js_num fun_eq_iff)
  have a: "GetArea (triangle_heap(0 := \<lparr>x = Fin (- 2), y = Fin (- 2)\<rparr>,
                1 := \<lparr>x = Fin 1, y = Fin (- 2)\<rparr>, 2 := \<lparr>x = Fin (- 2), y = Fin 1\<rparr>))
             [0, 1, 2] (Some True) = Fin (9 / 2)"
    by (simp add: GetArea_def GetArea_step_def upt3 js_num)
  have c: "GetCenterPoint (TranslateTo triangle_heap [0, 1, 2] 0) [0, 1, 2]
       = \<lparr>x = Fin (- 1), y = Fin (- 1)\<rparr>"
    unfolding t GetCenterPoint_def a
    by (simp add: GetCenterPoint_step_def upt3 js_num Let_def)
  have v: "val (GetArea triangle_heap [0, 1, 2] (Some True)) = 9 / 2"
    unfolding tri_area by simp
  have z: "triangle_heap 0 = \<lparr>x = Fin 0, y = Fin 0\<rparr>"
    by (simp add: triangle_heap_def)
  show ?thesis by (intro conjI) (rule v z c)+
qed

text \<open>
  Claim C9, as stated: after the call the target point of the caller no longer holds the
  target coordinates. It does when the centre of the polygon is the origin: for the
  square \<open>(-1,-1)\<close>, \<open>(1,-1)\<close>, \<open>(1,1)\<close>, \<open>(-1,1)\<close> the centre is \<open>(0,0)\<close>, the translation
  is the target itself, and \<open>position\<close> holds \<open>(5,7)\<close> before and after the call.
\<close>

theorem TranslateTo_position_unchanged_counterexample:
  "GetCenterPoint square_heap [0, 1, 2, 3] = \<lparr>x = Fin 0, y = Fin 0\<rparr>
   \<and> square_heap 4 = \<lparr>x = Fin 5, y = Fin 7\<rparr>
   \<and> TranslateTo square_heap [0, 1, 2, 3] 4 4 = \<lparr>x = Fin 5, y = Fin 7\<rparr>"
proof -
  have "TranslateTo square_heap [0, 1, 2, 3] 4 4 = \<lparr>x = Fin 5, y = Fin 7\<rparr>"
    unfolding TranslateTo_eq target_delta_def sq_centre
    by (simp add: TranslateTo_step_eq square_heap_def js_num)
  moreover have "square_heap 4 = \<lparr>x = Fin 5, y = Fin 7\<rparr>"
    by (simp add: square_heap_def)
  ultimately show ?thesis using sq_centre by blast
qed

text \<open>
  Claim C9, amended: \<open>TranslateTo(polygon, position)\<close> first overwrites \<open>position\<close> with
  the translation, the position minus the centre of the polygon as the source computes
  it, and then runs its loop over the vertices; no object other than the vertices and
  \<open>position\<close> is written. When \<open>position\<close> is not a vertex of the polygon it holds the
  translation after the call, every vertex object (the vertices being distinct objects)
  is moved by it, and the target point of the caller no longer holds the target
  coordinates unless the translation computed equals the target.
\<close>

theorem TranslateTo_writes:
  "TranslateTo h polygon position
     = fold (TranslateTo_step position) polygon (h(position := target_delta h polygon position))
   \<and> (\<forall>r. r \<notin> set polygon \<and> r \<noteq> position \<longrightarrow> TranslateTo h polygon position r = h r)
   \<and> (position \<notin> set polygon \<longrightarrow>
        TranslateTo h polygon position position = target_delta h polygon position)
   \<and> (position \<notin> set polygon \<and> distinct polygon \<longrightarrow>
        (\<forall>k \<in> set polygon. TranslateTo h polygon position k
            = \<lparr>x = x (h k) + x (target_delta h polygon position),
               y = y (h k) + y (target_delta h polygon position)\<rparr>))
   \<and> (position \<notin> set polygon \<and> target_delta h polygon position \<noteq> h position
        \<longrightarrow> TranslateTo h polygon position position \<noteq> h position)"
proof -
  let ?D = "target_delta h polygon position"
  have fr: "TranslateTo h polygon position r = h r" if "r \<notin> set polygon" "r \<noteq> position" for r
    unfolding TranslateTo_eq using that by (simp add: fold_TranslateTo_step_frame)
  have ps: "TranslateTo h polygon position position = ?D" if "position \<notin> set polygon"
    unfolding TranslateTo_eq using that by (simp add: fold_TranslateTo_step_frame)
  have vt: "TranslateTo h polygon position k = \<lparr>x = x (h k) + x ?D, y = y (h k) + y ?D\<rparr>"
    if "position \<notin> set polygon" "distinct polygon" "k \<in> set polygon" for k
  proof -
    have "k \<noteq> position" using that by auto
    then show ?thesis
      unfolding TranslateTo_eq fold_TranslateTo_step_vertex[OF that(2,1,3)] by simp
  qed
  have ch: "TranslateTo h polygon position position \<noteq> h position"
    if "position \<notin> set polygon" "?D \<noteq> h position"
    using ps[OF that(1)] that(2) by simp
  show ?thesis using TranslateTo_eq[of h polygon position] fr ps vt ch by blast
qed

theorem TranslateTo_writes_witness:
  "TranslateTo triangle_heap [0, 1, 2] 3 3 = (\<lparr>x = Fin 4, y = Fin 6\<rparr> :: binary64 Point)
   \<and> TranslateTo triangle_heap [0, 1, 2] 3 3 \<noteq> (triangle_heap 3 :: binary64 Point)
   \<and> TranslateTo triangle_heap [0, 1, 2] 3 1 = (\<lparr>x = Fin 7, y = Fin 6\<rparr> :: binary64 Point)
   \<and> TranslateTo triangle_heap [0, 1, 2] 3 7 = (triangle_heap 7 :: binary64 Point)"
proof -
  define h :: "binary64 heap" where "h = triangle_heap"
  note W = TranslateTo_writes[of h "[0, 1, 2]" 3]
  have np: "(3::nat) \<notin> set [0, 1, 2]" and di: "distinct [0, 1, 2::nat]"
    and k: "(1::nat) \<in> set [0, 1, 2]" and r: "(7::nat) \<notin> set [0, 1, 2] \<and> (7::nat) \<noteq> 3"
    by simp_all
  have D: "target_delta h [0, 1, 2] 3 = \<lparr>x = Fin 4, y = Fin 6\<rparr>"
    unfolding target_delta_def h_def tri_centre by (simp add: triangle_heap_def js_num)
  have ne: "target_delta h [0, 1, 2] 3 \<noteq> h 3"
    unfolding D by (simp add: h_def triangle_heap_def)
  have "TranslateTo h [0, 1, 2] 3 3 = target_delta h [0, 1, 2] 3"
    using W np by blast
  then have p: "TranslateTo h [0, 1, 2] 3 3 = \<lparr>x = Fin 4, y = Fin 6\<rparr>"
    unfolding D .
  have c: "TranslateTo h [0, 1, 2] 3 3 \<noteq> h 3"
    using W np ne by blast
  have "TranslateTo h [0, 1, 2] 3 1
          = \<lparr>x = x (h 1) + x (target_delta h [0, 1, 2] 3),
             y = y (h 1) + y (target_delta h [0, 1, 2] 3)\<rparr>"
    using W np di k by blast
  then have v: "TranslateTo h [0, 1, 2] 3 1 = \<lparr>x = Fin 7, y = Fin 6\<rparr>"
    unfolding D by (simp add: h_def triangle_heap_def js_num)
  have fr: "TranslateTo h [0, 1, 2] 3 7 = h 7"
    using W r by blast
  show ?thesis using p c v fr unfolding h_def by simp
qed

section \<open>Vector2: normalisation\<close>

lemma truthy_or_one: "truthy (js_or a (Fin 1))"
  by (cases a) (simp_all add: js_or_def truthy_def)

lemma Normalize_zero:
  assumes "is_zero (x v)" "is_zero (y v)"
  shows "Normalize v = \<lparr>x = Fin 0, y = Fin 0\<rparr> \<and> normalize_inst v = v"
proof -
  have z: "is_zero (x v * x v + y v * y v)"
    using assms
    by (cases "x v"; cases "y v")
       (simp_all add: js_ops js_mul_def js_add_def zero_of_def)
  have "is_zero (Math_sqrt (x v * x v + y v * y v))"
    using z by (cases "x v * x v + y v * y v") (simp_all add: zero_of_def)
  then have len: "Normalize_length v = Fin 1" "normalize_inst_length v = Fin 1"
    by (simp_all add: Normalize_length_def normalize_inst_length_def js_or_def truthy_def)
  have d: "a / Fin 1 = a" if "is_zero a" for a :: "'a jsnum"
    using that by (cases a) (simp_all add: js_ops js_div_def zero_of_def)
  have o: "js_or a (Fin 0) = Fin 0" if "is_zero a" for a :: "'a jsnum"
    using that by (simp add: js_or_def truthy_def)
  show ?thesis
    unfolding Normalize_def normalize_inst_def Let_def len Vector2_new_def
    using assms by (simp add: d o)
qed

subsection \<open>The error of the computation in binary64\<close>

text \<open>
  The computation of \<open>normalize\<close> over the reals with a rounding \<open>f\<close> after each
  operation, of relative error \<open>2 powr - 53\<close> and absolute error \<open>E\<close>: when the larger
  component of \<open>(a, b)\<close> is between \<open>2 powr - 510\<close> and \<open>2 ^ 510\<close> nothing overflows, the
  divisor \<open>L\<close> is positive, and the Euclidean length of the result is 1 up to
  \<open>2 powr - 49\<close>.
\<close>

lemma sqrt_between:
  fixes S N c :: real
  assumes N: "0 \<le> N" and c: "0 \<le> c" "c \<le> 1"
      and lo: "N * N * (1 - c) \<le> S" and hi: "S \<le> N * N * (1 + c)"
  shows "N * (1 - c) \<le> sqrt S" and "sqrt S \<le> N * (1 + c)"
proof -
  have "(N * (1 - c))\<^sup>2 = N * N * ((1 - c) * (1 - c))" by (simp add: power2_eq_square)
  also have "\<dots> \<le> N * N * (1 - c)"
  proof -
    have "(1 - c) * (1 - c) \<le> (1 - c) * 1" using c by (intro mult_left_mono) simp_all
    then show ?thesis using N by (intro mult_left_mono) simp_all
  qed
  finally have "(N * (1 - c))\<^sup>2 \<le> S" using lo by linarith
  then show "N * (1 - c) \<le> sqrt S" by (rule real_le_rsqrt)
  have "N * N * (1 + c) \<le> N * N * ((1 + c) * (1 + c))"
  proof -
    have "(1 + c) * 1 \<le> (1 + c) * (1 + c)" using c by (intro mult_left_mono) simp_all
    then show ?thesis using N by (intro mult_left_mono) simp_all
  qed
  also have "\<dots> = (N * (1 + c))\<^sup>2" by (simp add: power2_eq_square)
  finally have "S \<le> (N * (1 + c))\<^sup>2" using hi by linarith
  moreover have "0 \<le> N * (1 + c)" using N c by simp
  ultimately show "sqrt S \<le> N * (1 + c)" by (intro real_le_lsqrt) simp_all
qed

lemma normalize_error:
  fixes a b E :: real and f :: "real \<Rightarrow> real"
  assumes f: "\<And>r. \<bar>f r - r\<bar> \<le> \<bar>r\<bar> / 2 ^ 53 + E"
      and fpos: "\<And>r. 0 \<le> r \<Longrightarrow> 0 \<le> f r"
      and E: "0 \<le> E" "E \<le> 1 / 2 ^ 1075"
      and lo: "1 / 2 ^ 510 \<le> max \<bar>a\<bar> \<bar>b\<bar>" and hi: "max \<bar>a\<bar> \<bar>b\<bar> \<le> 2 ^ 510"
  defines "L \<equiv> f (sqrt (f (f (a * a) + f (b * b))))"
  shows "\<bar>f (a * a)\<bar> \<le> 2 ^ 1021" "\<bar>f (b * b)\<bar> \<le> 2 ^ 1021"
    and "\<bar>f (f (a * a) + f (b * b))\<bar> \<le> 2 ^ 1023" "0 \<le> f (f (a * a) + f (b * b))"
    and "0 < L" "L \<le> 2 ^ 512"
    and "\<bar>f (a / L)\<bar> \<le> 2" "\<bar>f (b / L)\<bar> \<le> 2"
    and "\<bar>sqrt ((f (a / L))\<^sup>2 + (f (b / L))\<^sup>2) - 1\<bar> \<le> 1 / 2 ^ 49"
proof -
  define N2 where "N2 = a * a + b * b"
  define N where "N = sqrt N2"
  define M where "M = max \<bar>a\<bar> \<bar>b\<bar>"
  have M: "1 / 2 ^ 510 \<le> M" "M \<le> 2 ^ 510" "\<bar>a\<bar> \<le> M" "\<bar>b\<bar> \<le> M" "0 < M"
  proof -
    show "1 / 2 ^ 510 \<le> M" "M \<le> 2 ^ 510" using lo hi by (simp_all add: M_def)
    show "\<bar>a\<bar> \<le> M" "\<bar>b\<bar> \<le> M" by (simp_all add: M_def)
    have "(0::real) < 1 / 2 ^ 510" by simp
    then show "0 < M" using \<open>1 / 2 ^ 510 \<le> M\<close> by linarith
  qed
  have aa: "0 \<le> a * a" "a * a \<le> M * M" and bb: "0 \<le> b * b" "b * b \<le> M * M"
  proof -
    show "0 \<le> a * a" "0 \<le> b * b" by simp_all
    have "\<bar>a\<bar> * \<bar>a\<bar> \<le> M * M" using M by (intro mult_mono) simp_all
    then show "a * a \<le> M * M" by (simp add: abs_mult_self_eq)
    have "\<bar>b\<bar> * \<bar>b\<bar> \<le> M * M" using M by (intro mult_mono) simp_all
    then show "b * b \<le> M * M" by (simp add: abs_mult_self_eq)
  qed
  have MM: "1 / 2 ^ 1020 \<le> M * M" "M * M \<le> 2 ^ 1020"
  proof -
    have "(1 / 2 ^ 510) * (1 / 2 ^ 510) \<le> M * M" using M by (intro mult_mono) simp_all
    then show "1 / 2 ^ 1020 \<le> M * M" by simp
    have "M * M \<le> 2 ^ 510 * 2 ^ 510" using M by (intro mult_mono) simp_all
    then show "M * M \<le> 2 ^ 1020" by simp
  qed
  have MN: "M * M \<le> N2"
  proof (cases "\<bar>a\<bar> \<le> \<bar>b\<bar>")
    case True
    then have "M = \<bar>b\<bar>" by (simp add: M_def)
    then have "M * M = b * b" by (simp add: abs_mult_self_eq)
    then show ?thesis using aa(1) by (simp add: N2_def)
  next
    case False
    then have "M = \<bar>a\<bar>" by (simp add: M_def)
    then have "M * M = a * a" by (simp add: abs_mult_self_eq)
    then show ?thesis using bb(1) by (simp add: N2_def)
  qed
  have N2: "1 / 2 ^ 1020 \<le> N2" "N2 \<le> 2 ^ 1021" "0 < N2"
  proof -
    show "1 / 2 ^ 1020 \<le> N2" using MM(1) MN by linarith
    have "N2 \<le> 2 * 2 ^ 1020" using aa bb MM(2) by (simp add: N2_def)
    then show "N2 \<le> 2 ^ 1021" by simp
    have "(0::real) < 1 / 2 ^ 1020" by simp
    then show "0 < N2" using \<open>1 / 2 ^ 1020 \<le> N2\<close> by linarith
  qed
  have EN2: "E * 2 ^ 55 \<le> N2"
  proof -
    have "E * 2 ^ 55 \<le> (1 / 2 ^ 1075) * 2 ^ 55" using E by (intro mult_right_mono) simp_all
    also have "\<dots> = 1 / 2 ^ 1020" by simp
    finally show ?thesis using N2(1) by linarith
  qed
  define A where "A = f (a * a)"
  define B where "B = f (b * b)"
  have A: "\<bar>A - a * a\<bar> \<le> (a * a) / 2 ^ 53 + E" "0 \<le> A"
    using f[of "a * a"] fpos[OF aa(1)] by (simp_all add: A_def)
  have B: "\<bar>B - b * b\<bar> \<le> (b * b) / 2 ^ 53 + E" "0 \<le> B"
    using f[of "b * b"] fpos[OF bb(1)] by (simp_all add: B_def)
  define T where "T = A + B"
  have T: "0 \<le> T" "\<bar>T - N2\<bar> \<le> N2 / 2 ^ 53 + 2 * E"
    using A B by (simp_all add: T_def N2_def add_divide_distrib) 
  define S where "S = f T"
  have S: "\<bar>S - T\<bar> \<le> T / 2 ^ 53 + E" "0 \<le> S"
    using f[of T] fpos[OF T(1)] T(1) by (simp_all add: S_def)
  have Sb: "N2 * (1 - 3 / 2 ^ 53) \<le> S" "S \<le> N2 * (1 + 3 / 2 ^ 53)"
    using S(1) T(2) EN2 E(1) N2(3) by (simp_all add: algebra_simps)
  have N: "N * N = N2" "0 < N" "1 / 2 ^ 510 \<le> N" "N \<le> 2 ^ 511" "M \<le> N"
  proof -
    show NN: "N * N = N2" using N2(3) by (simp add: N_def)
    show "0 < N" using N2(3) by (simp add: N_def)
    show MNle: "M \<le> N"
      unfolding N_def using MN by (intro real_le_rsqrt) (simp add: power2_eq_square)
    show "1 / 2 ^ 510 \<le> N" using MNle M(1) by linarith
    have "N2 \<le> (2 ^ 511)\<^sup>2" using N2(2) by simp
    then show "N \<le> 2 ^ 511" unfolding N_def by (intro real_le_lsqrt) simp_all
  qed
  define R where "R = sqrt S"
  have R: "N * (1 - 3 / 2 ^ 53) \<le> R" "R \<le> N * (1 + 3 / 2 ^ 53)"
    unfolding R_def using Sb N(2) by (intro sqrt_between; simp add: N(1))+
  have LR: "L = f R" by (simp add: L_def R_def S_def T_def A_def B_def)
  have R0: "0 \<le> R" using S(2) by (simp add: R_def)
  have L1: "\<bar>L - R\<bar> \<le> R / 2 ^ 53 + E"
    using f[of R] R0 by (simp add: LR)
  have EN: "E * 2 ^ 565 \<le> N"
  proof -
    have "E * 2 ^ 565 \<le> (1 / 2 ^ 1075) * 2 ^ 565" using E by (intro mult_right_mono) simp_all
    also have "\<dots> = 1 / 2 ^ 510" by simp
    finally show ?thesis using N(3) by linarith
  qed
  have Lb: "N * (1 - 5 / 2 ^ 53) \<le> L" "L \<le> N * (1 + 5 / 2 ^ 53)"
    using L1 R EN E(1) N(2) by (simp_all add: algebra_simps)
  show "\<bar>f (a * a)\<bar> \<le> 2 ^ 1021"
    using A aa MM(2) E unfolding A_def[symmetric] by (simp add: algebra_simps)
  show "\<bar>f (b * b)\<bar> \<le> 2 ^ 1021"
    using B bb MM(2) E unfolding B_def[symmetric] by (simp add: algebra_simps)
  show "\<bar>f (f (a * a) + f (b * b))\<bar> \<le> 2 ^ 1023"
    using Sb(2) S(2) N2(2) unfolding A_def[symmetric] B_def[symmetric] T_def[symmetric] S_def[symmetric]
    by (simp add: algebra_simps)
  show "0 \<le> f (f (a * a) + f (b * b))"
    using S(2) unfolding A_def[symmetric] B_def[symmetric] T_def[symmetric] S_def[symmetric] .
  show Lpos: "0 < L" using Lb(1) N(2) by (simp add: algebra_simps)
  show "L \<le> 2 ^ 512" using Lb(2) N(4) N(2) by (simp add: algebra_simps)
  define rho where "rho = N / L"
  have rho: "1 - 5 / 2 ^ 53 \<le> rho" "rho \<le> 1 + 6 / 2 ^ 53"
  proof -
    have "(1 - 5 / 2 ^ 53) * L \<le> N" using Lb(2) N(2) by (simp add: algebra_simps)
    then show "1 - 5 / 2 ^ 53 \<le> rho" unfolding rho_def using Lpos by (simp add: pos_le_divide_eq)
    have "N \<le> (1 + 6 / 2 ^ 53) * L" using Lb(1) N(2) by (simp add: algebra_simps)
    then show "rho \<le> 1 + 6 / 2 ^ 53" unfolding rho_def using Lpos by (simp add: pos_divide_le_eq)
  qed
  have pn: "sqrt ((a / L)\<^sup>2 + (b / L)\<^sup>2) = rho"
  proof -
    have "(a / L)\<^sup>2 + (b / L)\<^sup>2 = N2 / (L * L)"
      by (simp add: N2_def power2_eq_square add_divide_distrib)
    then have "sqrt ((a / L)\<^sup>2 + (b / L)\<^sup>2) = sqrt N2 / sqrt (L * L)"
      by (simp add: real_sqrt_divide)
    also have "\<dots> = N / L" using Lpos by (simp add: N_def)
    finally show ?thesis by (simp add: rho_def)
  qed
  have qa: "\<bar>a / L\<bar> \<le> rho" "\<bar>b / L\<bar> \<le> rho"
  proof -
    have "\<bar>a\<bar> / L \<le> N / L" using M(3) N(5) Lpos by (intro divide_right_mono) simp_all
    then show "\<bar>a / L\<bar> \<le> rho" using Lpos by (simp add: rho_def)
    have "\<bar>b\<bar> / L \<le> N / L" using M(4) N(5) Lpos by (intro divide_right_mono) simp_all
    then show "\<bar>b / L\<bar> \<le> rho" using Lpos by (simp add: rho_def)
  qed
  define Da where "Da = f (a / L) - a / L"
  define Db where "Db = f (b / L) - b / L"
  have D: "\<bar>Da\<bar> \<le> 2 / 2 ^ 53" "\<bar>Db\<bar> \<le> 2 / 2 ^ 53"
  proof -
    have "\<bar>Da\<bar> \<le> \<bar>a / L\<bar> / 2 ^ 53 + E" unfolding Da_def by (rule f)
    then show "\<bar>Da\<bar> \<le> 2 / 2 ^ 53" using qa(1) rho(2) E by (simp add: algebra_simps)
    have "\<bar>Db\<bar> \<le> \<bar>b / L\<bar> / 2 ^ 53 + E" unfolding Db_def by (rule f)
    then show "\<bar>Db\<bar> \<le> 2 / 2 ^ 53" using qa(2) rho(2) E by (simp add: algebra_simps)
  qed
  have fq: "f (a / L) = a / L + Da" "f (b / L) = b / L + Db"
    by (simp_all add: Da_def Db_def)
  have rho2: "rho \<le> 3 / 2" using rho(2) by simp
  have D2: "\<bar>Da\<bar> \<le> 1 / 2" "\<bar>Db\<bar> \<le> 1 / 2" using D by simp_all
  show "\<bar>f (a / L)\<bar> \<le> 2" using D2(1) qa(1) rho2 unfolding fq by linarith
  show "\<bar>f (b / L)\<bar> \<le> 2" using D2(2) qa(2) rho2 unfolding fq by linarith
  have dn: "sqrt (Da\<^sup>2 + Db\<^sup>2) \<le> 4 / 2 ^ 53"
    using sqrt_sum_squares_le_sum_abs[of Da Db] D by linarith
  have dn': "sqrt ((- Da)\<^sup>2 + (- Db)\<^sup>2) \<le> 4 / 2 ^ 53" using dn by simp
  have up: "sqrt ((a / L + Da)\<^sup>2 + (b / L + Db)\<^sup>2) \<le> rho + 4 / 2 ^ 53"
    using real_sqrt_sum_squares_triangle_ineq[of "a / L" Da "b / L" Db] dn unfolding pn by linarith
  have "sqrt (((a / L + Da) + (- Da))\<^sup>2 + ((b / L + Db) + (- Db))\<^sup>2)
           \<le> sqrt ((a / L + Da)\<^sup>2 + (b / L + Db)\<^sup>2) + sqrt ((- Da)\<^sup>2 + (- Db)\<^sup>2)"
    by (rule real_sqrt_sum_squares_triangle_ineq)
  then have dw: "rho - 4 / 2 ^ 53 \<le> sqrt ((a / L + Da)\<^sup>2 + (b / L + Db)\<^sup>2)"
    using dn' pn by simp
  define Q where "Q = sqrt ((a / L + Da)\<^sup>2 + (b / L + Db)\<^sup>2)"
  have "Q \<le> 1 + 1 / 2 ^ 49" "1 - 1 / 2 ^ 49 \<le> Q"
    using up dw rho unfolding Q_def[symmetric] by simp_all
  then have "\<bar>Q - 1\<bar> \<le> 1 / 2 ^ 49" by linarith
  then show "\<bar>sqrt ((f (a / L))\<^sup>2 + (f (b / L))\<^sup>2) - 1\<bar> \<le> 1 / 2 ^ 49"
    unfolding fq Q_def .
qed

text \<open>
  The two quotients of \<open>normalize\<close> in binary64, for components \<open>X\<close> and \<open>Y\<close> whose larger
  magnitude is between \<open>2 powr - 510\<close> and \<open>2 ^ 510\<close>.
\<close>

lemma b64_normalize:
  fixes X Y :: "binary64 jsnum"
  assumes fin: "is_fin X" "is_fin Y"
      and lo: "1 / 2 ^ 510 \<le> max \<bar>val X\<bar> \<bar>val Y\<bar>" and hi: "max \<bar>val X\<bar> \<bar>val Y\<bar> \<le> 2 ^ 510"
  defines "len \<equiv> js_or (Math_sqrt (X * X + Y * Y)) (Fin 1)"
  shows "is_fin (X / len)" "is_fin (Y / len)"
    and "\<bar>sqrt ((val (X / len))\<^sup>2 + (val (Y / len))\<^sup>2) - 1\<bar> \<le> 1 / 2 ^ 49"
proof -
  define a b where ab: "a = val X" "b = val Y"
  define L where "L = b64_value (sqrt (b64_value (b64_value (a * a) + b64_value (b * b))))"
  have E: "(0::real) \<le> 1 / 2 ^ 1075" "(1::real) / 2 ^ 1075 \<le> 1 / 2 ^ 1075" by simp_all
  note NE = normalize_error[of b64_value "1 / 2 ^ 1075" a b,
      OF b64_value_bound b64_value_nonneg E lo[folded ab] hi[folded ab], folded L_def]
  have big: "(2::real) ^ 1021 < 2 ^ 1024" "(2::real) ^ 1023 < 2 ^ 1024" "(2::real) ^ 512 < 2 ^ 1024"
    "(2::real) < 2 ^ 1024"
    by simp_all
  have xx: "is_fin (X * X)" "val (X * X) = b64_value (a * a)"
    using b64_mul[OF fin(1) fin(1)] NE(1) big(1) by (simp_all add: ab)
  have yy: "is_fin (Y * Y)" "val (Y * Y) = b64_value (b * b)"
    using b64_mul[OF fin(2) fin(2)] NE(2) big(1) by (simp_all add: ab)
  have ss: "is_fin (X * X + Y * Y)"
    "val (X * X + Y * Y) = b64_value (b64_value (a * a) + b64_value (b * b))"
    using b64_add[OF xx(1) yy(1)] NE(3) big(2) by (simp_all add: xx(2) yy(2))
  have Lb: "\<bar>L\<bar> < 2 ^ 1024" using NE(5,6) big(3) by linarith
  have sq: "is_fin (Math_sqrt (X * X + Y * Y))" "val (Math_sqrt (X * X + Y * Y)) = L"
    using b64_sqrt[OF ss(1)] NE(4) Lb by (simp_all add: ss(2) L_def)
  have "truthy (Math_sqrt (X * X + Y * Y))"
    using sq NE(5) by (cases "Math_sqrt (X * X + Y * Y)") (simp_all add: truthy_def)
  then have len: "len = Math_sqrt (X * X + Y * Y)" by (simp add: len_def js_or_def)
  have l: "is_fin len" "val len = L" "val len \<noteq> 0" using sq NE(5) by (simp_all add: len)
  have qa: "\<bar>b64_value (val X / val len)\<bar> < 2 ^ 1024"
    using NE(7) big(4) unfolding l(2) ab[symmetric] by linarith
  have qb: "\<bar>b64_value (val Y / val len)\<bar> < 2 ^ 1024"
    using NE(8) big(4) unfolding l(2) ab[symmetric] by linarith
  note dx = b64_div[OF fin(1) l(1) l(3) qa]
  note dy = b64_div[OF fin(2) l(1) l(3) qb]
  show "is_fin (X / len)" "is_fin (Y / len)" by (rule dx(1), rule dy(1))
  show "\<bar>sqrt ((val (X / len))\<^sup>2 + (val (Y / len))\<^sup>2) - 1\<bar> \<le> 1 / 2 ^ 49"
    unfolding dx(2) dy(2) l(2) ab[symmetric] by (rule NE(9))
qed

text \<open>
  Claim C8, as stated: every finite vector that is not zero is normalised to a vector of
  Euclidean length 1, up to a rounding error. It is not in binary64 when a component is
  too large or too small: for \<open>(2 ^ 600, 0)\<close> the square of \<open>x\<close> overflows, the divisor is
  \<open>Infinity\<close>, and both forms return \<open>(0, 0)\<close>, of length 0; for \<open>(2 powr - 600, 0)\<close> the
  square underflows to 0, the divisor is replaced by 1, and both forms return the vector
  as it is, of length \<open>2 powr - 600\<close>.
\<close>

theorem Normalize_extreme_counterexample:
  "Normalize \<lparr>x = Fin (2 ^ 600), y = Fin 0\<rparr> = (\<lparr>x = Fin 0, y = Fin 0\<rparr> :: binary64 Vector2)
   \<and> normalize_inst \<lparr>x = Fin (2 ^ 600), y = Fin 0\<rparr> = (\<lparr>x = Fin 0, y = Fin 0\<rparr> :: binary64 Vector2)
   \<and> euclid_norm (\<lparr>x = Fin 0, y = Fin 0\<rparr> :: binary64 Vector2) = 0
   \<and> Normalize \<lparr>x = Fin (1 / 2 ^ 600), y = Fin 0\<rparr>
       = (\<lparr>x = Fin (1 / 2 ^ 600), y = Fin 0\<rparr> :: binary64 Vector2)
   \<and> normalize_inst \<lparr>x = Fin (1 / 2 ^ 600), y = Fin 0\<rparr>
       = (\<lparr>x = Fin (1 / 2 ^ 600), y = Fin 0\<rparr> :: binary64 Vector2)
   \<and> euclid_norm (\<lparr>x = Fin (1 / 2 ^ 600), y = Fin 0\<rparr> :: binary64 Vector2) = 1 / 2 ^ 600"
proof -
  define R r :: real where Rr: "R = 2 ^ 600" "r = 1 / 2 ^ 600"
  have "rep64 (1 / (2::real) ^ 600)" by (rule rep64_power2) simp
  then have r: "rep64 r" "0 < r" "r \<noteq> 0" "0 < r * r" "r * r < 1 / 2 ^ 1075"
    unfolding Rr by simp_all
  have R: "0 < R" "2 ^ 1025 \<le> R * R" unfolding Rr by simp_all
  have z: "Fin 0 * Fin 0 = (Fin 0 :: binary64 jsnum)" by (simp add: Fin_arith zero_of_def)
  have RR: "Fin R * Fin R = (PInf :: binary64 jsnum)"
    using R(2) by (simp add: Fin_arith rnd_overflow)
  have lenR: "js_or (Math_sqrt (Fin R * Fin R + Fin 0 * Fin 0)) (Fin 1) = (PInf :: binary64 jsnum)"
    unfolding RR z by (simp add: inf_arith js_or_def truthy_def)
  have qR: "Fin R / PInf = (Fin 0 :: binary64 jsnum)" "Fin 0 / PInf = (Fin 0 :: binary64 jsnum)"
    using R(1) by (simp_all add: inf_arith zero_of_def)
  have o: "js_or (Fin 0) (Fin 0) = (Fin 0 :: binary64 jsnum)" by (simp add: js_or_def)
  have n1: "Normalize \<lparr>x = Fin R, y = Fin 0\<rparr> = (\<lparr>x = Fin 0, y = Fin 0\<rparr> :: binary64 Vector2)"
    by (simp add: Normalize_def Normalize_length_def Let_def lenR qR Vector2_new_def o)
  have n2: "normalize_inst \<lparr>x = Fin R, y = Fin 0\<rparr> = (\<lparr>x = Fin 0, y = Fin 0\<rparr> :: binary64 Vector2)"
    by (simp add: normalize_inst_def normalize_inst_length_def Let_def lenR qR)
  have rr: "Fin r * Fin r = (Fin 0 :: binary64 jsnum)"
    using r(4,5) by (simp add: Fin_arith rnd_underflow)
  have lenr: "js_or (Math_sqrt (Fin r * Fin r + Fin 0 * Fin 0)) (Fin 1) = (Fin 1 :: binary64 jsnum)"
    unfolding rr z by (simp add: Fin_arith zero_of_def js_or_def truthy_def)
  have qr: "Fin r / Fin 1 = (Fin r :: binary64 jsnum)" "Fin 0 / Fin 1 = (Fin 0 :: binary64 jsnum)"
    using r(1,2) by (simp_all add: Fin_div rnd_rep64 fin_of_def zero_of_def)
  have o': "js_or (Fin r) (Fin 0) = (Fin r :: binary64 jsnum)"
    using r(3) by (simp add: js_or_def truthy_def)
  have n3: "Normalize \<lparr>x = Fin r, y = Fin 0\<rparr> = (\<lparr>x = Fin r, y = Fin 0\<rparr> :: binary64 Vector2)"
    by (simp add: Normalize_def Normalize_length_def Let_def lenr qr Vector2_new_def o o')
  have n4: "normalize_inst \<lparr>x = Fin r, y = Fin 0\<rparr> = (\<lparr>x = Fin r, y = Fin 0\<rparr> :: binary64 Vector2)"
    by (simp add: normalize_inst_def normalize_inst_length_def Let_def lenr qr)
  have e1: "euclid_norm (\<lparr>x = Fin 0, y = Fin 0\<rparr> :: binary64 Vector2) = 0"
    by (simp add: euclid_norm_def)
  have e2: "euclid_norm (\<lparr>x = Fin r, y = Fin 0\<rparr> :: binary64 Vector2) = r"
    using r(2) by (simp add: euclid_norm_def)
  show ?thesis using n1 n2 e1 n3 n4 e2 unfolding Rr by blast
qed

text \<open>
  Claim C8, amended: normalisation never divides by zero, in the static form and in the
  method the divisor \<open>length\<close> is neither a zero nor NaN, whatever the vector. In binary64,
  a vector with finite components whose larger magnitude is between \<open>2 powr - 510\<close> and
  \<open>2 ^ 510\<close> is normalised to a vector with finite components and of Euclidean length 1
  up to \<open>2 powr - 49\<close>, by both forms; and a zero vector is normalised to the zero vector:
  the method leaves it as it is, the static form returns \<open>(0, 0)\<close>.
\<close>

theorem Normalize_total_and_unit:
  fixes v :: "binary64 Vector2"
  shows "truthy (Normalize_length v) \<and> truthy (normalize_inst_length v)
   \<and> (is_fin (x v) \<and> is_fin (y v)
        \<and> 1 / 2 ^ 510 \<le> max \<bar>val (x v)\<bar> \<bar>val (y v)\<bar> \<and> max \<bar>val (x v)\<bar> \<bar>val (y v)\<bar> \<le> 2 ^ 510 \<longrightarrow>
        fin_point (Normalize v) \<and> \<bar>euclid_norm (Normalize v) - 1\<bar> \<le> 1 / 2 ^ 49
        \<and> fin_point (normalize_inst v) \<and> \<bar>euclid_norm (normalize_inst v) - 1\<bar> \<le> 1 / 2 ^ 49)
   \<and> (is_zero (x v) \<and> is_zero (y v) \<longrightarrow>
        Normalize v = \<lparr>x = Fin 0, y = Fin 0\<rparr> \<and> normalize_inst v = v)"
proof -
  have t: "truthy (Normalize_length v)" "truthy (normalize_inst_length v)"
    by (simp_all add: Normalize_length_def normalize_inst_length_def truthy_or_one)
  have u: "fin_point (Normalize v) \<and> \<bar>euclid_norm (Normalize v) - 1\<bar> \<le> 1 / 2 ^ 49
        \<and> fin_point (normalize_inst v) \<and> \<bar>euclid_norm (normalize_inst v) - 1\<bar> \<le> 1 / 2 ^ 49"
    if h: "is_fin (x v) \<and> is_fin (y v)
        \<and> 1 / 2 ^ 510 \<le> max \<bar>val (x v)\<bar> \<bar>val (y v)\<bar> \<and> max \<bar>val (x v)\<bar> \<bar>val (y v)\<bar> \<le> 2 ^ 510"
  proof -
    have f: "is_fin (x v)" "is_fin (y v)" and lo: "1 / 2 ^ 510 \<le> max \<bar>val (x v)\<bar> \<bar>val (y v)\<bar>"
      and hi: "max \<bar>val (x v)\<bar> \<bar>val (y v)\<bar> \<le> 2 ^ 510"
      using h by simp_all
    note B = b64_normalize[OF f lo hi]
    have s: "fin_point (Normalize v)" "\<bar>euclid_norm (Normalize v) - 1\<bar> \<le> 1 / 2 ^ 49"
      using B
      by (simp_all add: Normalize_def Normalize_length_def Let_def Vector2_new_def fin_point_def
          euclid_norm_def)
    have i: "fin_point (normalize_inst v)" "\<bar>euclid_norm (normalize_inst v) - 1\<bar> \<le> 1 / 2 ^ 49"
      using B
      by (simp_all add: normalize_inst_def normalize_inst_length_def Let_def fin_point_def
          euclid_norm_def)
    show ?thesis using s i by simp
  qed
  show ?thesis using t u Normalize_zero[of v] by blast
qed

theorem Normalize_total_and_unit_witness:
  "fin_point (Normalize (\<lparr>x = Fin 3, y = Fin 4\<rparr> :: binary64 Vector2))
   \<and> \<bar>euclid_norm (Normalize (\<lparr>x = Fin 3, y = Fin 4\<rparr> :: binary64 Vector2)) - 1\<bar> \<le> 1 / 2 ^ 49
   \<and> fin_point (normalize_inst (\<lparr>x = Fin 3, y = Fin 4\<rparr> :: binary64 Vector2))
   \<and> \<bar>euclid_norm (normalize_inst (\<lparr>x = Fin 3, y = Fin 4\<rparr> :: binary64 Vector2)) - 1\<bar> \<le> 1 / 2 ^ 49
   \<and> Normalize \<lparr>x = Fin 0, y = Fin 0\<rparr> = (\<lparr>x = Fin 0, y = Fin 0\<rparr> :: binary64 Vector2)
   \<and> normalize_inst \<lparr>x = Fin 0, y = Fin 0\<rparr> = (\<lparr>x = Fin 0, y = Fin 0\<rparr> :: binary64 Vector2)"
  using Normalize_total_and_unit[of "\<lparr>x = Fin 3, y = Fin 4\<rparr>"]
        Normalize_total_and_unit[of "\<lparr>x = Fin 0, y = Fin 0\<rparr>"]
  by simp


end
